theory Spec2Isabelle
  imports Main "HOL-Library.Sublist"
begin

section \<open>Data model\<close>

text \<open>
  Character spans, bias indicators and lexicon terms as declared in the web client's
  type module. Positions are JavaScript numbers that only ever hold integers here, so
  they are modelled as \<open>int\<close>. Optional properties (\<open>displayIndex?\<close>, \<open>outdated?\<close>,
  \<open>confidence?\<close>) are options, \<open>None\<close> standing for \<open>undefined\<close>.
\<close>

record Positions =
  pos_start :: int
  pos_end :: int

text \<open>
  \<open>BiasIndicator\<close>: the fields \<open>indicator_key\<close>, \<open>indicator_phrase\<close>, \<open>indicator_confidence\<close>
  and \<open>indicator_positions\<close> are the source's \<open>bias_indicator_key\<close>, \<open>detected_phrase\<close>,
  \<open>confidence\<close> and \<open>character_positions\<close> (required on a processed indicator).
\<close>

record BiasIndicator =
  indicator_key :: string
  indicator_phrase :: string
  indicator_confidence :: "string option"
  indicator_positions :: Positions
  displayIndex :: "int option"
  outdated :: "bool option"

text \<open>
  \<open>LexiconTerm\<close>: \<open>term_definition\<close>, \<open>term_positions\<close>, \<open>term_displayIndex\<close> and
  \<open>term_outdated\<close> are the source's \<open>definition\<close>, \<open>character_positions\<close>,
  \<open>displayIndex\<close> and \<open>outdated\<close>.
\<close>

record LexiconTerm =
  word :: string
  term_definition :: string
  usage_example :: string
  term_positions :: Positions
  term_displayIndex :: "int option"
  term_outdated :: "bool option"

text \<open>
  The editor's selection, read through \<open>from\<close>, \<open>to\<close> and \<open>empty\<close>; a selection is
  empty when it is a cursor. The plugin also guards against a missing selection, hence
  the option at the call sites.
\<close>

record Selection =
  sel_from :: int
  sel_to :: int

definition sel_empty :: "Selection \<Rightarrow> bool" where
  "sel_empty s = (sel_from s = sel_to s)"

text \<open>JavaScript truthiness of an optional boolean and of an optional number.\<close>

definition truthy_bool :: "bool option \<Rightarrow> bool" where
  "truthy_bool b = (b = Some True)"

definition truthy_num :: "int option \<Rightarrow> bool" where
  "truthy_num n = (case n of None \<Rightarrow> False | Some k \<Rightarrow> k \<noteq> 0)"

text \<open>\<open>xs.splice(i, 1)\<close> for an index inside the array.\<close>

definition splice1 :: "nat \<Rightarrow> 'a list \<Rightarrow> 'a list" where
  "splice1 i xs = take i xs @ drop (Suc i) xs"

section \<open>Bias decorations: the reconcile helpers\<close>

text \<open>
  \<open>mapIndicatorPositions\<close>: every indicator's start and end go through the mapping;
  an indicator is rebuilt only when one of the two moved, and the flag records whether
  any did.
\<close>

fun mapIndicatorPositions ::
  "BiasIndicator list \<Rightarrow> (int \<Rightarrow> int) \<Rightarrow> BiasIndicator list \<times> bool" where
  "mapIndicatorPositions [] mapping = ([], False)"
| "mapIndicatorPositions (indicator # rest) mapping =
     (let oldStart = pos_start (indicator_positions indicator);
          oldEnd = pos_end (indicator_positions indicator);
          newStart = mapping oldStart;
          newEnd = mapping oldEnd;
          (rest', positionsChanged) = mapIndicatorPositions rest mapping
      in if newStart \<noteq> oldStart \<or> newEnd \<noteq> oldEnd
         then (indicator\<lparr>indicator_positions :=
                 \<lparr>pos_start = newStart, pos_end = newEnd\<rparr>\<rparr> # rest', True)
         else (indicator # rest', positionsChanged))"

text \<open>
  \<open>removeEditedIndicators\<close>: with a missing or non-empty selection nothing happens.
  Otherwise the indices of the indicators with \<open>from > start \<and> from \<le> end\<close> are
  collected; when there are none the flag is false, else each of them (visited in
  descending index order) is replaced by a copy with \<open>outdated: true\<close>, which is also
  pushed to the list of outdated indicators.
\<close>

definition cursor_inside :: "int \<Rightarrow> Positions \<Rightarrow> bool" where
  "cursor_inside p cp = (p > pos_start cp \<and> p \<le> pos_end cp)"

definition indicesToOutdate :: "BiasIndicator list \<Rightarrow> int \<Rightarrow> nat list" where
  "indicesToOutdate indicators p =
     filter (\<lambda>i. cursor_inside p (indicator_positions (indicators ! i)))
       [0 ..< length indicators]"

fun markOutdated ::
  "nat list \<Rightarrow> BiasIndicator list \<times> BiasIndicator list
     \<Rightarrow> BiasIndicator list \<times> BiasIndicator list" where
  "markOutdated [] (updated, outs) = (updated, outs)"
| "markOutdated (index # rest) (updated, outs) =
     (let outdatedIndicator = (updated ! index)\<lparr>outdated := Some True\<rparr>
      in markOutdated rest (updated[index := outdatedIndicator], outs @ [outdatedIndicator]))"

definition removeEditedIndicators ::
  "BiasIndicator list \<Rightarrow> Selection option
     \<Rightarrow> BiasIndicator list \<times> bool \<times> BiasIndicator list" where
  "removeEditedIndicators indicators selection =
     (case selection of
        None \<Rightarrow> (indicators, False, [])
      | Some sel \<Rightarrow>
          if \<not> sel_empty sel then (indicators, False, [])
          else
            let toOutdate = indicesToOutdate indicators (sel_from sel)
            in if toOutdate = [] then (indicators, False, [])
               else
                 let (updated, outs) = markOutdated (rev toOutdate) (indicators, [])
                 in (updated, True, outs))"

text \<open>
  \<open>removeInvalidIndicators\<close>: the indices of the indicators with
  \<open>start \<ge> end \<or> start < 1 \<or> end > docSize\<close> are collected and spliced out one by
  one in descending order.
\<close>

definition invalid_positions :: "int \<Rightarrow> Positions \<Rightarrow> bool" where
  "invalid_positions docSize cp =
     (pos_start cp \<ge> pos_end cp \<or> pos_start cp < 1 \<or> pos_end cp > docSize)"

definition indicesToRemove :: "BiasIndicator list \<Rightarrow> int \<Rightarrow> nat list" where
  "indicesToRemove indicators docSize =
     filter (\<lambda>i. invalid_positions docSize (indicator_positions (indicators ! i)))
       [0 ..< length indicators]"

definition removeInvalidIndicators ::
  "BiasIndicator list \<Rightarrow> int \<Rightarrow> BiasIndicator list \<times> bool" where
  "removeInvalidIndicators indicators docSize =
     (let toRemove = indicesToRemove indicators docSize
      in if toRemove = [] then (indicators, False)
         else (fold splice1 (rev toRemove) indicators, True))"

section \<open>Bias decorations: plugin state and commands\<close>

text \<open>
  The extension's storage is the list of indicators. Every operation returns the new
  storage together with the payload of the \<open>biasIndicatorsUpdated\<close> event it
  dispatches (\<open>None\<close> when it dispatches none).

  A transaction, as far as the plugin's \<open>apply\<close> reads it: whether it carries the
  plugin's meta flag, whether it changed the document, its position mapping, its
  selection and the size of the new document. \<open>reconcile\<close> is the body of the
  \<open>docChanged\<close> branch of \<open>apply\<close> up to its decision: the three helpers in order
  and the disjunction of their flags.
\<close>

record Transaction =
  tr_meta :: bool
  tr_docChanged :: bool
  tr_mapping :: "int \<Rightarrow> int"
  tr_selection :: "Selection option"
  tr_docSize :: int

definition reconcile ::
  "BiasIndicator list \<Rightarrow> (int \<Rightarrow> int) \<Rightarrow> Selection option \<Rightarrow> int
     \<Rightarrow> BiasIndicator list \<times> bool" where
  "reconcile storage mapping selection docSize =
     (let (indicators1, changed1) = mapIndicatorPositions storage mapping;
          (indicators2, changed2, outs) = removeEditedIndicators indicators1 selection;
          (indicators3, changed3) = removeInvalidIndicators indicators2 docSize
      in (indicators3, (changed1 \<or> changed2) \<or> changed3))"

definition apply_tr ::
  "Transaction \<Rightarrow> BiasIndicator list \<Rightarrow> BiasIndicator list \<times> BiasIndicator list option" where
  "apply_tr tr storage =
     (if tr_meta tr then (storage, None)
      else if tr_docChanged tr then
        (let (indicators, indicatorsChanged) =
               reconcile storage (tr_mapping tr) (tr_selection tr) (tr_docSize tr)
         in if indicatorsChanged then (indicators, Some indicators) else (storage, None))
      else (storage, None))"

text \<open>
  \<open>setBiasIndicators\<close>: the storage is emptied first; the candidates are sorted by
  span end (the engine's sort is stable); the next display index is one more than the
  largest display index found in the storage as it is at that point; positions are
  shifted to the editor's 1-based convention when asked; a candidate whose
  \<open>displayIndex\<close> is falsy takes the next display index.
\<close>

definition maxDisplayIndex :: "BiasIndicator list \<Rightarrow> int" where
  "maxDisplayIndex currentIndicators =
     fold (\<lambda>ind mx. max mx (if truthy_num (displayIndex ind) then the (displayIndex ind) else 0))
       currentIndicators 0"

fun adjustIndicators :: "bool \<Rightarrow> int \<Rightarrow> BiasIndicator list \<Rightarrow> BiasIndicator list" where
  "adjustIndicators normPos nextDisplayIndex [] = []"
| "adjustIndicators normPos nextDisplayIndex (indicator # rest) =
     (let cp = indicator_positions indicator;
          start = (if normPos then (if pos_start cp = 0 then 1 else pos_start cp + 1)
                   else pos_start cp);
          end' = (if normPos then max (pos_end cp + 1) (start + 1) else pos_end cp)
      in if truthy_num (displayIndex indicator)
         then indicator\<lparr>indicator_positions := \<lparr>pos_start = start, pos_end = end'\<rparr>\<rparr>
                # adjustIndicators normPos nextDisplayIndex rest
         else indicator\<lparr>indicator_positions := \<lparr>pos_start = start, pos_end = end'\<rparr>,
                          displayIndex := Some nextDisplayIndex\<rparr>
                # adjustIndicators normPos (nextDisplayIndex + 1) rest)"

definition setBiasIndicators ::
  "BiasIndicator list \<Rightarrow> bool \<Rightarrow> BiasIndicator list
     \<Rightarrow> BiasIndicator list \<times> BiasIndicator list option \<times> bool" where
  "setBiasIndicators indicators normalizeCharacterPositions storage =
     (let storage1 = [];
          sortedIndicators = sort_key (\<lambda>ind. pos_end (indicator_positions ind)) indicators;
          currentIndicators = storage1;
          nextDisplayIndex = maxDisplayIndex currentIndicators + 1;
          adjustedIndicators =
            adjustIndicators normalizeCharacterPositions nextDisplayIndex sortedIndicators
      in (adjustedIndicators, Some adjustedIndicators, True))"

definition clearBiasIndicators ::
  "BiasIndicator list \<Rightarrow> BiasIndicator list \<times> BiasIndicator list option \<times> bool" where
  "clearBiasIndicators storage = ([], Some [], True)"

text \<open>
  \<open>removeBiasIndicator\<close>: a bounds check, then one splice; outside the bounds the
  command returns false and touches nothing.
\<close>

definition removeBiasIndicator ::
  "int \<Rightarrow> BiasIndicator list \<Rightarrow> BiasIndicator list \<times> BiasIndicator list option \<times> bool" where
  "removeBiasIndicator index storage =
     (if index \<ge> 0 \<and> index < int (length storage)
      then (let indicators = splice1 (nat index) storage
            in (indicators, Some indicators, True))
      else (storage, None, False))"

text \<open>
  \<open>removeBiasIndicatorAtPosition\<close>: a loop from the last index down to 0 that splices
  out each indicator whose span contains the position (both ends inclusive).
\<close>

definition contains_position :: "int \<Rightarrow> Positions \<Rightarrow> bool" where
  "contains_position position cp = (position \<ge> pos_start cp \<and> position \<le> pos_end cp)"

fun removeAtLoop :: "nat \<Rightarrow> int \<Rightarrow> BiasIndicator list \<times> bool \<Rightarrow> BiasIndicator list \<times> bool" where
  "removeAtLoop 0 position (indicators, indicatorRemoved) = (indicators, indicatorRemoved)"
| "removeAtLoop (Suc i) position (indicators, indicatorRemoved) =
     (if contains_position position (indicator_positions (indicators ! i))
      then removeAtLoop i position (splice1 i indicators, True)
      else removeAtLoop i position (indicators, indicatorRemoved))"

definition removeBiasIndicatorAtPosition ::
  "int \<Rightarrow> BiasIndicator list \<Rightarrow> BiasIndicator list \<times> BiasIndicator list option \<times> bool" where
  "removeBiasIndicatorAtPosition position storage =
     (let (indicators, indicatorRemoved) = removeAtLoop (length storage) position (storage, False)
      in if indicatorRemoved then (indicators, Some indicators, True)
         else (storage, None, False))"

section \<open>Lexicon decorations\<close>

text \<open>The lexicon extension's three helpers, written over lexicon terms.\<close>

fun mapTermPositions ::
  "LexiconTerm list \<Rightarrow> (int \<Rightarrow> int) \<Rightarrow> LexiconTerm list \<times> bool" where
  "mapTermPositions [] mapping = ([], False)"
| "mapTermPositions (lexiconTerm # rest) mapping =
     (let oldStart = pos_start (term_positions lexiconTerm);
          oldEnd = pos_end (term_positions lexiconTerm);
          newStart = mapping oldStart;
          newEnd = mapping oldEnd;
          (rest', positionsChanged) = mapTermPositions rest mapping
      in if newStart \<noteq> oldStart \<or> newEnd \<noteq> oldEnd
         then (lexiconTerm\<lparr>term_positions := \<lparr>pos_start = newStart, pos_end = newEnd\<rparr>\<rparr> # rest', True)
         else (lexiconTerm # rest', positionsChanged))"

definition termsToOutdate :: "LexiconTerm list \<Rightarrow> int \<Rightarrow> nat list" where
  "termsToOutdate terms p =
     filter (\<lambda>i. cursor_inside p (term_positions (terms ! i))) [0 ..< length terms]"

fun markTermsOutdated ::
  "nat list \<Rightarrow> LexiconTerm list \<times> LexiconTerm list \<Rightarrow> LexiconTerm list \<times> LexiconTerm list" where
  "markTermsOutdated [] (updated, outs) = (updated, outs)"
| "markTermsOutdated (index # rest) (updated, outs) =
     (let outdatedTerm = (updated ! index)\<lparr>term_outdated := Some True\<rparr>
      in markTermsOutdated rest (updated[index := outdatedTerm], outs @ [outdatedTerm]))"

definition removeEditedTerms ::
  "LexiconTerm list \<Rightarrow> Selection option \<Rightarrow> LexiconTerm list \<times> bool \<times> LexiconTerm list" where
  "removeEditedTerms terms selection =
     (case selection of
        None \<Rightarrow> (terms, False, [])
      | Some sel \<Rightarrow>
          if \<not> sel_empty sel then (terms, False, [])
          else
            let toOutdate = termsToOutdate terms (sel_from sel)
            in if toOutdate = [] then (terms, False, [])
               else
                 let (updated, outs) = markTermsOutdated (rev toOutdate) (terms, [])
                 in (updated, True, outs))"

definition termsToRemove :: "LexiconTerm list \<Rightarrow> int \<Rightarrow> nat list" where
  "termsToRemove terms docSize =
     filter (\<lambda>i. invalid_positions docSize (term_positions (terms ! i))) [0 ..< length terms]"

definition removeInvalidTerms :: "LexiconTerm list \<Rightarrow> int \<Rightarrow> LexiconTerm list \<times> bool" where
  "removeInvalidTerms terms docSize =
     (let toRemove = termsToRemove terms docSize
      in if toRemove = [] then (terms, False)
         else (fold splice1 (rev toRemove) terms, True))"

definition reconcileTerms ::
  "LexiconTerm list \<Rightarrow> (int \<Rightarrow> int) \<Rightarrow> Selection option \<Rightarrow> int
     \<Rightarrow> LexiconTerm list \<times> bool" where
  "reconcileTerms storage mapping selection docSize =
     (let (terms1, changed1) = mapTermPositions storage mapping;
          (terms2, changed2, outs) = removeEditedTerms terms1 selection;
          (terms3, changed3) = removeInvalidTerms terms2 docSize
      in (terms3, (changed1 \<or> changed2) \<or> changed3))"

text \<open>
  \<open>setLexiconTerms\<close> is \<open>setBiasIndicators\<close> without the sort and with the shift to
  1-based positions always on.
\<close>

definition maxTermDisplayIndex :: "LexiconTerm list \<Rightarrow> int" where
  "maxTermDisplayIndex currentTerms =
     fold (\<lambda>t mx. max mx (if truthy_num (term_displayIndex t) then the (term_displayIndex t) else 0))
       currentTerms 0"

fun adjustTerms :: "int \<Rightarrow> LexiconTerm list \<Rightarrow> LexiconTerm list" where
  "adjustTerms nextDisplayIndex [] = []"
| "adjustTerms nextDisplayIndex (lexiconTerm # rest) =
     (let cp = term_positions lexiconTerm;
          start = (if pos_start cp = 0 then 1 else pos_start cp + 1);
          end' = max (pos_end cp + 1) (start + 1)
      in if truthy_num (term_displayIndex lexiconTerm)
         then lexiconTerm\<lparr>term_positions := \<lparr>pos_start = start, pos_end = end'\<rparr>\<rparr>
                # adjustTerms nextDisplayIndex rest
         else lexiconTerm\<lparr>term_positions := \<lparr>pos_start = start, pos_end = end'\<rparr>,
                            term_displayIndex := Some nextDisplayIndex\<rparr>
                # adjustTerms (nextDisplayIndex + 1) rest)"

definition setLexiconTerms ::
  "LexiconTerm list \<Rightarrow> LexiconTerm list \<Rightarrow> LexiconTerm list \<times> LexiconTerm list option \<times> bool" where
  "setLexiconTerms terms storage =
     (let storage1 = [];
          currentTerms = storage1;
          nextDisplayIndex = maxTermDisplayIndex currentTerms + 1;
          adjustedTerms = adjustTerms nextDisplayIndex terms
      in (adjustedTerms, Some adjustedTerms, True))"

section \<open>A document session\<close>

text \<open>
  The operations a session performs on the bias collection, and the session state they
  act on: the storage and the size of the current document. Only an edit changes the
  document; it reaches the plugin as a transaction with \<open>docChanged\<close> set and no meta
  flag.
\<close>

datatype operation =
    SetAnnotations "BiasIndicator list" bool
  | Clear
  | RemoveAt int
  | RemoveAtDocumentPosition int
  | Reconcile "int \<Rightarrow> int" "Selection option" int

record session =
  collection :: "BiasIndicator list"
  documentSize :: int

fun step :: "session \<Rightarrow> operation \<Rightarrow> session" where
  "step s (SetAnnotations candidates normPos) =
     s\<lparr>collection := fst (setBiasIndicators candidates normPos (collection s))\<rparr>"
| "step s Clear = s\<lparr>collection := fst (clearBiasIndicators (collection s))\<rparr>"
| "step s (RemoveAt index) = s\<lparr>collection := fst (removeBiasIndicator index (collection s))\<rparr>"
| "step s (RemoveAtDocumentPosition position) =
     s\<lparr>collection := fst (removeBiasIndicatorAtPosition position (collection s))\<rparr>"
| "step s (Reconcile mapping selection newSize) =
     \<lparr>collection = fst (apply_tr \<lparr>tr_meta = False, tr_docChanged = True, tr_mapping = mapping,
                               tr_selection = selection, tr_docSize = newSize\<rparr> (collection s)),
      documentSize = newSize\<rparr>"

definition run :: "session \<Rightarrow> operation list \<Rightarrow> session" where
  "run s ops = foldl step s ops"

definition is_active :: "BiasIndicator \<Rightarrow> bool" where
  "is_active ind = (\<not> truthy_bool (outdated ind))"

section \<open>Analysis helpers: strings and the engine's primitives\<close>

text \<open>
  A JavaScript string is a sequence of UTF-16 code units. The model takes Isabelle's
  \<open>string\<close>, a list of 8-bit characters, for the strings whose code units are all below
  256 (ISO 8859-1), and defines on them what the engine defines: the word characters of
  \<open>\w\<close>, the white space that \<open>trim\<close> strips, \<open>toLowerCase\<close>, and the
  canonicalisation that a case-insensitive regular expression (without the unicode flag)
  applies to both sides before comparing a character. Canonicalisation upper-cases a
  character when the result is a single code unit; for two characters of this range the
  upper case lies outside the range, so it returns a code unit number.
\<close>

definition code_unit :: "char \<Rightarrow> nat" where
  "code_unit c = of_char c"

definition is_word_char :: "char \<Rightarrow> bool" where
  "is_word_char c =
     (let n = code_unit c
      in (48 \<le> n \<and> n \<le> 57) \<or> (65 \<le> n \<and> n \<le> 90) \<or> n = 95 \<or> (97 \<le> n \<and> n \<le> 122))"

definition is_trim_space :: "char \<Rightarrow> bool" where
  "is_trim_space c = (code_unit c \<in> {9, 10, 11, 12, 13, 32, 160})"

definition js_trim :: "string \<Rightarrow> string" where
  "js_trim s = rev (dropWhile is_trim_space (rev (dropWhile is_trim_space s)))"

definition lower_char :: "char \<Rightarrow> char" where
  "lower_char c =
     (let n = code_unit c
      in if (65 \<le> n \<and> n \<le> 90) \<or> (192 \<le> n \<and> n \<le> 222 \<and> n \<noteq> 215)
         then char_of (n + 32) else c)"

definition toLowerCase :: "string \<Rightarrow> string" where
  "toLowerCase s = map lower_char s"

definition canonicalize :: "char \<Rightarrow> nat" where
  "canonicalize c =
     (let n = code_unit c
      in if (97 \<le> n \<and> n \<le> 122) \<or> (224 \<le> n \<and> n \<le> 254 \<and> n \<noteq> 247) then n - 32
         else if n = 181 then 924
         else if n = 255 then 376
         else n)"

section \<open>Analysis helpers: \<open>findPhrasePositions\<close>\<close>

text \<open>
  The regular expression is the phrase with every syntax character escaped, between a
  negative lookbehind and a negative lookahead for a word character, with the flags
  \<open>g\<close> and \<open>i\<close>: a literal, matched code unit by code unit after canonicalisation.
  \<open>match_at\<close> is a match of that expression starting at index \<open>i\<close>; \<open>regex_exec\<close> is
  one call of \<open>exec\<close>, which tries every index from \<open>lastIndex\<close> up to the length of the
  text and returns the first that matches; \<open>exec_loop\<close> is the \<open>while\<close> loop, which moves
  \<open>lastIndex\<close> to the end of each match. The loop is entered only with a non-empty
  phrase (an empty one returns before it); the guard in \<open>exec_loop\<close> restates that.
\<close>

definition match_at :: "string \<Rightarrow> string \<Rightarrow> nat \<Rightarrow> bool" where
  "match_at text phrase i =
     (i + length phrase \<le> length text \<and>
      (i = 0 \<or> \<not> is_word_char (text ! (i - 1))) \<and>
      map canonicalize (take (length phrase) (drop i text)) = map canonicalize phrase \<and>
      (i + length phrase = length text \<or> \<not> is_word_char (text ! (i + length phrase))))"

definition regex_exec :: "string \<Rightarrow> string \<Rightarrow> nat \<Rightarrow> nat option" where
  "regex_exec text phrase lastIndex =
     find (match_at text phrase) [lastIndex ..< Suc (length text)]"

function exec_loop :: "string \<Rightarrow> string \<Rightarrow> nat \<Rightarrow> Positions list" where
  "exec_loop text phrase lastIndex =
     (if phrase = [] then []
      else case regex_exec text phrase lastIndex of
             None \<Rightarrow> []
           | Some i \<Rightarrow>
               \<lparr>pos_start = int i, pos_end = int i + int (length phrase)\<rparr>
                 # exec_loop text phrase (i + length phrase))"
  by pat_completeness auto
termination
proof (relation "measure (\<lambda>(text, phrase, lastIndex). Suc (length text) - lastIndex)")
  show "wf (measure (\<lambda>(text, phrase, lastIndex). Suc (length text) - lastIndex))"
    by simp
next
  fix body phrase :: "char list"
  fix lastIndex i :: nat
  assume ne: "phrase \<noteq> []" and ex: "regex_exec body phrase lastIndex = Some i"
  from ex obtain k where k: "k < length [lastIndex ..< Suc (length body)]"
      and m: "match_at body phrase ([lastIndex ..< Suc (length body)] ! k)"
      and i: "i = [lastIndex ..< Suc (length body)] ! k"
    unfolding regex_exec_def find_Some_iff by blast
  from k have "lastIndex + k < Suc (length body)" by (simp del: upt_Suc)
  then have "[lastIndex ..< Suc (length body)] ! k = lastIndex + k" by (rule nth_upt)
  with i m have "lastIndex \<le> i" and "i + length phrase \<le> length body"
    by (simp_all add: match_at_def)
  with ne show "((body, phrase, i + length phrase), (body, phrase, lastIndex))
          \<in> measure (\<lambda>(text, phrase, lastIndex). Suc (length text) - lastIndex)"
    by (cases phrase) auto
qed

declare exec_loop.simps [simp del]

definition findPhrasePositions :: "string \<Rightarrow> string \<Rightarrow> Positions list" where
  "findPhrasePositions text phrase =
     (if phrase = [] \<or> js_trim phrase = [] then [] else exec_loop text phrase 0)"

section \<open>Analysis helpers: raw indicators and plain objects used as dictionaries\<close>

text \<open>
  A raw indicator as the backends send it; \<open>character_positions\<close> may be absent.
\<close>

record RawBiasIndicator =
  bias_indicator_key :: string
  detected_phrase :: string
  character_positions :: "Positions option"
  confidence :: "string option"

text \<open>
  Both helpers below keep a dictionary in an object literal \<open>{}\<close>. Such an object
  inherits the properties of \<open>Object.prototype\<close>: reading one of these names on it gives
  a function (or, for \<open>__proto__\<close>, the prototype object), not \<open>undefined\<close>. The names are
  those of the language standard.
\<close>

datatype js_error = TypeError

definition object_prototype_names :: "string list" where
  "object_prototype_names =
     [''constructor'', ''__defineGetter__'', ''__defineSetter__'', ''hasOwnProperty'',
      ''__lookupGetter__'', ''__lookupSetter__'', ''isPrototypeOf'', ''propertyIsEnumerable'',
      ''toString'', ''valueOf'', ''__proto__'', ''toLocaleString'']"

section \<open>Analysis helpers: \<open>limitIndicatorsByKey\<close>\<close>

text \<open>
  \<open>grouped\<close> is built by a reduce over the indicators to limit: \<open>if (!acc[key]) acc[key] = []\<close>
  creates the group of a key that reads as falsy, and \<open>acc[key].push(indicator)\<close> appends.
  The object is modelled by its own properties in creation order. For a key that is a
  name of \<open>Object.prototype\<close> the read is truthy, no group is created, and the call of
  \<open>push\<close> on the inherited value throws a \<open>TypeError\<close>.
\<close>

fun group_push ::
  "(string \<times> RawBiasIndicator list) list \<Rightarrow> RawBiasIndicator
     \<Rightarrow> (string \<times> RawBiasIndicator list) list" where
  "group_push [] indicator = [(bias_indicator_key indicator, [indicator])]"
| "group_push ((k, g) # rest) indicator =
     (if k = bias_indicator_key indicator then (k, g @ [indicator]) # rest
      else (k, g) # group_push rest indicator)"

fun group_reduce ::
  "(string \<times> RawBiasIndicator list) list \<Rightarrow> RawBiasIndicator list
     \<Rightarrow> js_error + (string \<times> RawBiasIndicator list) list" where
  "group_reduce acc [] = Inr acc"
| "group_reduce acc (indicator # rest) =
     (if bias_indicator_key indicator \<in> set object_prototype_names then Inl TypeError
      else group_reduce (group_push acc indicator) rest)"

text \<open>
  \<open>Object.values\<close> lists the values of the own properties: first those whose name is an
  array index (a canonical decimal numeral below \<open>2^32 - 1\<close>) in ascending numeric order,
  then the others in creation order.
\<close>

definition is_digit :: "char \<Rightarrow> bool" where
  "is_digit c = (48 \<le> code_unit c \<and> code_unit c \<le> 57)"

definition array_index :: "string \<Rightarrow> int option" where
  "array_index k =
     (if k = [] \<or> \<not> list_all is_digit k \<or> (length k > 1 \<and> hd k = CHR ''0'') then None
      else let n = foldl (\<lambda>a c. 10 * a + (int (code_unit c) - 48)) 0 k
           in if n < 4294967295 then Some n else None)"

definition own_property_order :: "(string \<times> 'a) list \<Rightarrow> (string \<times> 'a) list" where
  "own_property_order props =
     sort_key (\<lambda>(k, v). the (array_index k)) (filter (\<lambda>(k, v). array_index k \<noteq> None) props)
     @ filter (\<lambda>(k, v). array_index k = None) props"

definition object_values :: "(string \<times> 'a) list \<Rightarrow> 'a list" where
  "object_values props = map snd (own_property_order props)"

text \<open>\<open>xs.slice(0, e)\<close>: a negative \<open>e\<close> counts from the end.\<close>

definition array_slice0 :: "int \<Rightarrow> 'a list \<Rightarrow> 'a list" where
  "array_slice0 e xs =
     (let len = int (length xs);
          final = (if e < 0 then max (len + e) 0 else min e len)
      in take (nat final) xs)"

definition limited_keys :: "RawBiasIndicator list \<Rightarrow> string list option \<Rightarrow> string list" where
  "limited_keys indicators keysToLimit =
     (case keysToLimit of
        None \<Rightarrow> map bias_indicator_key indicators
      | Some ks \<Rightarrow> if length ks > 0 then ks else map bias_indicator_key indicators)"

definition limitIndicatorsByKey ::
  "RawBiasIndicator list \<Rightarrow> string list option \<Rightarrow> int option
     \<Rightarrow> js_error + RawBiasIndicator list" where
  "limitIndicatorsByKey indicators keysToLimit maxPerKey =
     (let maxPerKey' = (case maxPerKey of None \<Rightarrow> 3 | Some n \<Rightarrow> n);
          keysSet = set (limited_keys indicators keysToLimit);
          toLimit = filter (\<lambda>ind. bias_indicator_key ind \<in> keysSet) indicators;
          others = filter (\<lambda>ind. bias_indicator_key ind \<notin> keysSet) indicators
      in case group_reduce [] toLimit of
           Inl e \<Rightarrow> Inl e
         | Inr grouped \<Rightarrow>
             Inr (concat (map (array_slice0 maxPerKey') (object_values grouped)) @ others))"

section \<open>Analysis helpers: \<open>addCharacterPositions\<close>\<close>

text \<open>
  \<open>phraseOccurrenceCount\<close> is an object literal used as a dictionary from lower-cased
  phrases to numbers. It is modelled by its own properties; a read falls back on
  \<open>Object.prototype\<close>. The values that can come out of a read or go into a write are
  \<open>undefined\<close>, a number, \<open>NaN\<close>, and an inherited function or object (\<open>Inherited\<close>),
  which is truthy and converts to \<open>NaN\<close>. \<open>__proto__\<close> is an accessor: reading it gives
  the prototype object, and assigning the prototype itself or a number to it changes
  nothing.
\<close>

datatype js_value = Undefined | Num nat | NaN | Inherited

definition count_get :: "(string \<Rightarrow> js_value option) \<Rightarrow> string \<Rightarrow> js_value" where
  "count_get own k =
     (if k = ''__proto__'' then Inherited
      else case own k of
             Some v \<Rightarrow> v
           | None \<Rightarrow> if k \<in> set object_prototype_names then Inherited else Undefined)"

definition count_set ::
  "(string \<Rightarrow> js_value option) \<Rightarrow> string \<Rightarrow> js_value \<Rightarrow> (string \<Rightarrow> js_value option)" where
  "count_set own k v = (if k = ''__proto__'' then own else own(k := Some v))"

definition js_truthy :: "js_value \<Rightarrow> bool" where
  "js_truthy v = (case v of Num n \<Rightarrow> n \<noteq> 0 | Inherited \<Rightarrow> True | Undefined \<Rightarrow> False | NaN \<Rightarrow> False)"

definition math_min :: "js_value \<Rightarrow> nat \<Rightarrow> js_value" where
  "math_min v n = (case v of Num a \<Rightarrow> Num (min a n) | Inherited \<Rightarrow> NaN | Undefined \<Rightarrow> NaN | NaN \<Rightarrow> NaN)"

definition increment :: "js_value \<Rightarrow> js_value" where
  "increment v = (case v of Num a \<Rightarrow> Num (a + 1) | Inherited \<Rightarrow> NaN | Undefined \<Rightarrow> NaN | NaN \<Rightarrow> NaN)"

definition array_at :: "'a list \<Rightarrow> js_value \<Rightarrow> 'a option" where
  "array_at xs idx =
     (case idx of
        Num i \<Rightarrow> if i < length xs then Some (xs ! i) else None
      | Inherited \<Rightarrow> None | Undefined \<Rightarrow> None | NaN \<Rightarrow> None)"

text \<open>
  The \<open>map\<close> over the indicators, with the dictionary threaded through. A candidate that
  carries a span is returned as it is. Otherwise the phrase is located; with at least one
  match the counter of the lower-cased phrase is read (0 when falsy), the match at
  \<open>min(counter, matches - 1)\<close> is taken and the counter is incremented; with no match
  the fallback span \<open>{0, max(1, phrase length)}\<close> is taken.
\<close>

fun addPositionsLoop ::
  "string \<Rightarrow> (string \<Rightarrow> js_value option) \<Rightarrow> RawBiasIndicator list \<Rightarrow> RawBiasIndicator list" where
  "addPositionsLoop text phraseOccurrenceCount [] = []"
| "addPositionsLoop text phraseOccurrenceCount (indicator # rest) =
     (if character_positions indicator \<noteq> None
      then indicator # addPositionsLoop text phraseOccurrenceCount rest
      else
        let positions = findPhrasePositions text (detected_phrase indicator)
        in if length positions > 0 then
             let phrase = toLowerCase (detected_phrase indicator);
                 current = count_get phraseOccurrenceCount phrase;
                 counts1 = count_set phraseOccurrenceCount phrase
                             (if js_truthy current then current else Num 0);
                 positionIndex = math_min (count_get counts1 phrase) (length positions - 1);
                 counts2 = count_set counts1 phrase (increment (count_get counts1 phrase))
             in indicator\<lparr>character_positions := array_at positions positionIndex\<rparr>
                  # addPositionsLoop text counts2 rest
           else
             indicator\<lparr>character_positions :=
                 Some \<lparr>pos_start = 0, pos_end = max 1 (int (length (detected_phrase indicator)))\<rparr>\<rparr>
               # addPositionsLoop text phraseOccurrenceCount rest)"

definition addCharacterPositions :: "RawBiasIndicator list \<Rightarrow> string \<Rightarrow> RawBiasIndicator list" where
  "addCharacterPositions indicators text = addPositionsLoop text (\<lambda>k. None) indicators"

section \<open>What the code is shown to compute\<close>

text \<open>
  The three helpers are loops over indices; these are the list functions the loops are
  shown to compute: \<open>remap\<close> rebuilds one indicator's span through the mapping,
  \<open>moved\<close> says the mapping changed a span, \<open>cursor_in\<close> is the test of
  \<open>removeEditedIndicators\<close> (a cursor, strictly after the start and at or before the
  end), \<open>outdate_edited\<close> sets the outdated flag where that test holds.
\<close>

definition remap :: "(int \<Rightarrow> int) \<Rightarrow> BiasIndicator \<Rightarrow> BiasIndicator" where
  "remap m x = x\<lparr>indicator_positions :=
        \<lparr>pos_start = m (pos_start (indicator_positions x)),
         pos_end = m (pos_end (indicator_positions x))\<rparr>\<rparr>"

definition moved :: "(int \<Rightarrow> int) \<Rightarrow> Positions \<Rightarrow> bool" where
  "moved m cp = (m (pos_start cp) \<noteq> pos_start cp \<or> m (pos_end cp) \<noteq> pos_end cp)"

definition cursor_in :: "Selection option \<Rightarrow> Positions \<Rightarrow> bool" where
  "cursor_in selection cp =
     (case selection of None \<Rightarrow> False
      | Some sel \<Rightarrow> sel_from sel = sel_to sel \<and> cursor_inside (sel_from sel) cp)"

definition outdate_edited :: "Selection option \<Rightarrow> BiasIndicator \<Rightarrow> BiasIndicator" where
  "outdate_edited selection x =
     (if cursor_in selection (indicator_positions x) then x\<lparr>outdated := Some True\<rparr> else x)"

text \<open>
  For an edit, seen from the stored collection: \<open>reconciled\<close> is the collection the three
  steps arrive at, and \<open>reconcile_condition\<close> is the disjunction of their three flags.
\<close>

definition reconciled :: "Transaction \<Rightarrow> BiasIndicator list \<Rightarrow> BiasIndicator list" where
  "reconciled tr storage =
     filter (\<lambda>x. \<not> invalid_positions (tr_docSize tr) (indicator_positions x))
       (map (\<lambda>x. outdate_edited (tr_selection tr) (remap (tr_mapping tr) x)) storage)"

definition reconcile_condition :: "Transaction \<Rightarrow> BiasIndicator list \<Rightarrow> bool" where
  "reconcile_condition tr storage =
     list_ex (\<lambda>x. moved (tr_mapping tr) (indicator_positions x)
                \<or> cursor_in (tr_selection tr) (indicator_positions (remap (tr_mapping tr) x))
                \<or> invalid_positions (tr_docSize tr) (indicator_positions (remap (tr_mapping tr) x)))
       storage"

text \<open>
  What the two engines have in common: an annotation's span and its outdated flag.
\<close>

definition bias_view :: "BiasIndicator \<Rightarrow> Positions \<times> bool option" where
  "bias_view ind = (indicator_positions ind, outdated ind)"

definition term_view :: "LexiconTerm \<Rightarrow> Positions \<times> bool option" where
  "term_view t = (term_positions t, term_outdated t)"

text \<open>
  The lexicon counterparts of \<open>remap\<close> and \<open>outdate_edited\<close>, and reconciliation written
  once over what both engines share: the list of (span, outdated flag) pairs.
\<close>

definition remap_term :: "(int \<Rightarrow> int) \<Rightarrow> LexiconTerm \<Rightarrow> LexiconTerm" where
  "remap_term m t = t\<lparr>term_positions :=
        \<lparr>pos_start = m (pos_start (term_positions t)),
         pos_end = m (pos_end (term_positions t))\<rparr>\<rparr>"

definition outdate_edited_term :: "Selection option \<Rightarrow> LexiconTerm \<Rightarrow> LexiconTerm" where
  "outdate_edited_term selection t =
     (if cursor_in selection (term_positions t) then t\<lparr>term_outdated := Some True\<rparr> else t)"

definition reconcile_view ::
  "(Positions \<times> bool option) list \<Rightarrow> (int \<Rightarrow> int) \<Rightarrow> Selection option \<Rightarrow> int
     \<Rightarrow> (Positions \<times> bool option) list \<times> bool" where
  "reconcile_view vs m selection n =
     (let remapped = map (\<lambda>(cp, out). (\<lparr>pos_start = m (pos_start cp), pos_end = m (pos_end cp)\<rparr>, out)) vs;
          edited = map (\<lambda>(cp, out). (cp, if cursor_in selection cp then Some True else out)) remapped
      in (filter (\<lambda>(cp, out). \<not> invalid_positions n cp) edited,
          list_ex (\<lambda>(cp, out). moved m cp) vs
          \<or> list_ex (\<lambda>(cp, out). cursor_in selection cp) remapped
          \<or> list_ex (\<lambda>(cp, out). invalid_positions n cp) edited))"

text \<open>
  The span invariant: a span lies in a document of a given size, every stored annotation
  does, and the one operation that stores spans as they come.
\<close>

definition span_in_document :: "int \<Rightarrow> Positions \<Rightarrow> bool" where
  "span_in_document docSize cp =
     (1 \<le> pos_start cp \<and> pos_start cp < pos_end cp \<and> pos_end cp \<le> docSize)"

definition session_valid :: "session \<Rightarrow> bool" where
  "session_valid s =
     list_all (\<lambda>x. span_in_document (documentSize s) (indicator_positions x)) (collection s)"

fun replaces_collection :: "operation \<Rightarrow> bool" where
  "replaces_collection (SetAnnotations candidates normPos) = True"
| "replaces_collection Clear = False"
| "replaces_collection (RemoveAt index) = False"
| "replaces_collection (RemoveAtDocumentPosition position) = False"
| "replaces_collection (Reconcile mapping selection newSize) = False"

text \<open>
  What identifies an annotation to the user across operations: its payload and its
  display index (its span and its outdated flag change under reconcile).
\<close>

definition identity_view :: "BiasIndicator \<Rightarrow> string \<times> string \<times> string option \<times> int option" where
  "identity_view x = (indicator_key x, indicator_phrase x, indicator_confidence x, displayIndex x)"

text \<open>
  \<open>text.slice(start, end)\<close> for \<open>0 \<le> start \<le> end\<close>, and the order in which the
  matches come: each ends at or before the start of the next.
\<close>

definition slice :: "string \<Rightarrow> int \<Rightarrow> int \<Rightarrow> string" where
  "slice text s e = take (nat e - nat s) (drop (nat s) text)"

fun ascending_disjoint :: "Positions list \<Rightarrow> bool" where
  "ascending_disjoint [] = True"
| "ascending_disjoint [a] = True"
| "ascending_disjoint (a # b # rest) = (pos_end a \<le> pos_start b \<and> ascending_disjoint (b # rest))"

text \<open>
  The invariant of the reduce in \<open>limitIndicatorsByKey\<close>: the groups have distinct keys,
  and the group of a key is the list of the candidates seen so far that have this key,
  in their order.
\<close>

definition grouped_inv ::
  "(string \<times> RawBiasIndicator list) list \<Rightarrow> RawBiasIndicator list \<Rightarrow> bool" where
  "grouped_inv acc xs =
     (distinct (map fst acc) \<and>
      (\<forall>k. map_of acc k =
             (if k \<in> bias_indicator_key ` set xs
              then Some (filter (\<lambda>ind. bias_indicator_key ind = k) xs) else None)))"

text \<open>
  For the candidate at index \<open>j\<close>: how many candidates before it arrived without a span
  and with the same lower-cased phrase; and the span of the fallback.
\<close>

definition occurrences_before :: "RawBiasIndicator list \<Rightarrow> nat \<Rightarrow> nat" where
  "occurrences_before indicators j =
     length (filter (\<lambda>x. character_positions x = None \<and>
                          toLowerCase (detected_phrase x)
                            = toLowerCase (detected_phrase (indicators ! j)))
               (take j indicators))"

definition fallback_positions :: "string \<Rightarrow> Positions" where
  "fallback_positions phrase = \<lparr>pos_start = 0, pos_end = max 1 (int (length phrase))\<rparr>"

text \<open>
  \<open>expected_span\<close> is what a candidate becomes when \<open>i\<close> candidates before it took a
  match of the same phrase; \<open>count_of\<close> and \<open>counts_wf\<close> read the dictionary as a table of
  counters.
\<close>

definition expected_span :: "string \<Rightarrow> nat \<Rightarrow> RawBiasIndicator \<Rightarrow> RawBiasIndicator" where
  "expected_span text i ind =
     (if character_positions ind \<noteq> None then ind
      else if findPhrasePositions text (detected_phrase ind) = []
      then ind\<lparr>character_positions := Some (fallback_positions (detected_phrase ind))\<rparr>
      else ind\<lparr>character_positions :=
             Some (findPhrasePositions text (detected_phrase ind)
                     ! min i (length (findPhrasePositions text (detected_phrase ind)) - 1))\<rparr>)"

definition count_of :: "(string \<Rightarrow> js_value option) \<Rightarrow> string \<Rightarrow> nat" where
  "count_of own k = (case own k of Some (Num n) \<Rightarrow> n | _ \<Rightarrow> 0)"

definition counts_wf :: "(string \<Rightarrow> js_value option) \<Rightarrow> bool" where
  "counts_wf own = (\<forall>k. own k = None \<or> (\<exists>n. own k = Some (Num n)))"

section \<open>Example data\<close>

text \<open>
  The collections, selections, edits and candidate batches at which the theorems below
  are instantiated; several are inputs of the repository's own tests.
\<close>

definition example_indicator :: "string \<Rightarrow> int \<Rightarrow> int \<Rightarrow> int option \<Rightarrow> BiasIndicator" where
  "example_indicator phrase s e idx =
     \<lparr>indicator_key = ''sarcasm'', indicator_phrase = phrase, indicator_confidence = None,
      indicator_positions = \<lparr>pos_start = s, pos_end = e\<rparr>, displayIndex = idx,
      outdated = None\<rparr>"

definition three_indicators :: "BiasIndicator list" where
  "three_indicators =
     [example_indicator ''a'' 1 4 (Some 1), example_indicator ''b'' 5 8 (Some 2),
      example_indicator ''c'' 9 12 (Some 3)]"

definition edited_example :: "BiasIndicator list" where
  "edited_example =
     [example_indicator ''a'' 5 10 (Some 1),
      (example_indicator ''b'' 6 8 (Some 2))\<lparr>outdated := Some True\<rparr>,
      example_indicator ''c'' 20 30 (Some 3)]"

definition scenario_E :: "BiasIndicator list" where
  "scenario_E = [example_indicator ''brown fox'' 5 10 (Some 1)]"

definition cursor_at :: "int \<Rightarrow> Selection option" where
  "cursor_at p = Some \<lparr>sel_from = p, sel_to = p\<rparr>"

definition outdated_example :: BiasIndicator where
  "outdated_example = (example_indicator ''brown fox'' 5 10 (Some 1))\<lparr>outdated := Some True\<rparr>"

definition edit_at :: "(int \<Rightarrow> int) \<Rightarrow> Selection option \<Rightarrow> int \<Rightarrow> Transaction" where
  "edit_at mapping selection newSize =
     \<lparr>tr_meta = False, tr_docChanged = True, tr_mapping = mapping,
      tr_selection = selection, tr_docSize = newSize\<rparr>"

definition example_term :: "string \<Rightarrow> int \<Rightarrow> int \<Rightarrow> int option \<Rightarrow> LexiconTerm" where
  "example_term w s e idx =
     \<lparr>word = w, term_definition = ''a definition'', usage_example = ''an example'',
      term_positions = \<lparr>pos_start = s, pos_end = e\<rparr>, term_displayIndex = idx,
      term_outdated = None\<rparr>"

definition example_terms :: "LexiconTerm list" where
  "example_terms =
     [example_term ''paradigm'' 5 10 (Some 4),
      (example_term ''heuristic'' 6 8 None)\<lparr>term_outdated := Some True\<rparr>,
      example_term ''ontology'' 20 30 (Some 9)]"

definition the_cat_text :: string where
  "the_cat_text = ''the cat and the dog and the bird''"

definition raw :: "string \<Rightarrow> string \<Rightarrow> RawBiasIndicator" where
  "raw key phrase =
     \<lparr>bias_indicator_key = key, detected_phrase = phrase, character_positions = None,
      confidence = None\<rparr>"

definition first_n_test :: "RawBiasIndicator list" where
  "first_n_test =
     [raw ''typeA'' ''a1'', raw ''typeB'' ''b1'', raw ''typeA'' ''a2'', raw ''typeB'' ''b2'',
      raw ''typeA'' ''a3'', raw ''typeA'' ''a4'']"

definition the_candidates :: "RawBiasIndicator list" where
  "the_candidates =
     [raw ''overgeneralizations'' ''the'', raw ''overgeneralizations'' ''The'',
      (raw ''overgeneralizations'' ''the'')\<lparr>character_positions := Some \<lparr>pos_start = 40, pos_end = 50\<rparr>\<rparr>,
      raw ''overgeneralizations'' ''the'', raw ''overgeneralizations'' ''THE'',
      raw ''overgeneralizations'' ''elephant'']"

section \<open>The loops of the helpers, characterised\<close>

lemma splice1_length: "i < length xs \<Longrightarrow> length (splice1 i xs) = length xs - 1"
  by (simp add: splice1_def)

lemma splice1_nth_before: "j < i \<Longrightarrow> i < length xs \<Longrightarrow> splice1 i xs ! j = xs ! j"
  by (simp add: splice1_def nth_append)

lemma splice1_nth_after:
  "i \<le> j \<Longrightarrow> Suc j < length xs \<Longrightarrow> splice1 i xs ! j = xs ! Suc j"
  by (simp add: splice1_def nth_append min_def)

lemma removeAtLoop_filter:
  "n \<le> length xs \<Longrightarrow>
   removeAtLoop n p (xs, b) =
     (filter (\<lambda>x. \<not> contains_position p (indicator_positions x)) (take n xs) @ drop n xs,
      b \<or> (\<exists>x \<in> set (take n xs). contains_position p (indicator_positions x)))"
proof (induction n arbitrary: xs b)
  case 0
  then show ?case by simp
next
  case (Suc n)
  then have n: "n < length xs" by simp
  have tk: "take (Suc n) xs = take n xs @ [xs ! n]"
    using n by (simp add: take_Suc_conv_app_nth)
  show ?case
  proof (cases "contains_position p (indicator_positions (xs ! n))")
    case True
    have len: "n \<le> length (splice1 n xs)" using n by (simp add: splice1_def)
    have t: "take n (splice1 n xs) = take n xs" using n by (simp add: splice1_def)
    have d: "drop n (splice1 n xs) = drop (Suc n) xs" using n by (simp add: splice1_def)
    show ?thesis using True Suc.IH [OF len, of True] by (simp add: t d tk)
  next
    case False
    have len: "n \<le> length xs" using n by simp
    have d: "drop n xs = xs ! n # drop (Suc n) xs"
      using n by (simp add: Cons_nth_drop_Suc)
    show ?thesis using False Suc.IH [OF len, of b] by (auto simp add: tk d)
  qed
qed

lemma fold_splice1_filter:
  "n \<le> length xs \<Longrightarrow>
   fold splice1 (rev (filter (\<lambda>i. P (xs ! i)) [0 ..< n])) xs =
     filter (\<lambda>x. \<not> P x) (take n xs) @ drop n xs"
proof (induction n arbitrary: xs)
  case 0
  then show ?case by simp
next
  case (Suc n)
  then have n: "n < length xs" by simp
  have tk: "take (Suc n) xs = take n xs @ [xs ! n]"
    using n by (simp add: take_Suc_conv_app_nth)
  show ?case
  proof (cases "P (xs ! n)")
    case True
    have len: "n \<le> length (splice1 n xs)" using n by (simp add: splice1_def)
    have t: "take n (splice1 n xs) = take n xs" using n by (simp add: splice1_def)
    have d: "drop n (splice1 n xs) = drop (Suc n) xs" using n by (simp add: splice1_def)
    have idx: "filter (\<lambda>i. P (xs ! i)) [0 ..< n] = filter (\<lambda>i. P (splice1 n xs ! i)) [0 ..< n]"
      using n by (intro filter_cong) (simp_all add: splice1_nth_before)
    show ?thesis using True Suc.IH [OF len] by (simp add: t d tk idx)
  next
    case False
    have len: "n \<le> length xs" using n by simp
    have d: "drop n xs = xs ! n # drop (Suc n) xs"
      using n by (simp add: Cons_nth_drop_Suc)
    show ?thesis using False Suc.IH [OF len] by (simp add: tk d)
  qed
qed

lemma removeInvalidIndicators_filter:
  "removeInvalidIndicators indicators docSize =
     (filter (\<lambda>x. \<not> invalid_positions docSize (indicator_positions x)) indicators,
      \<exists>x \<in> set indicators. invalid_positions docSize (indicator_positions x))"
proof -
  let ?P = "\<lambda>x. invalid_positions docSize (indicator_positions x)"
  have f: "fold splice1 (rev (indicesToRemove indicators docSize)) indicators
             = filter (\<lambda>x. \<not> ?P x) indicators"
    using fold_splice1_filter [of "length indicators" indicators ?P]
    by (simp add: indicesToRemove_def)
  have e: "(indicesToRemove indicators docSize = []) = (\<not> (\<exists>x \<in> set indicators. ?P x))"
    by (simp add: indicesToRemove_def filter_empty_conv Ball_def Bex_def in_set_conv_nth) blast
  show ?thesis
  proof (cases "\<exists>x \<in> set indicators. ?P x")
    case True
    then show ?thesis using e f by (simp add: removeInvalidIndicators_def Let_def)
  next
    case False
    then have "filter (\<lambda>x. \<not> ?P x) indicators = indicators" by (simp add: filter_id_conv)
    then show ?thesis using False e by (simp add: removeInvalidIndicators_def Let_def)
  qed
qed

lemma markOutdated_length:
  "length (fst (markOutdated js (xs, outs))) = length xs"
  by (induction js arbitrary: xs outs) (simp_all add: Let_def)

lemma markOutdated_nth:
  "i < length xs \<Longrightarrow>
   fst (markOutdated js (xs, outs)) ! i =
     (if i \<in> set js then (xs ! i)\<lparr>outdated := Some True\<rparr> else xs ! i)"
proof (induction js arbitrary: xs outs)
  case Nil
  then show ?case by simp
next
  case (Cons j js)
  then show ?case
    by (cases "i = j") (simp_all add: Let_def)
qed

lemma markOutdated_map:
  "fst (markOutdated (rev (indicesToOutdate xs p)) (xs, [])) =
     map (\<lambda>x. if cursor_inside p (indicator_positions x) then x\<lparr>outdated := Some True\<rparr> else x) xs"
  by (rule nth_equalityI)
     (auto simp add: markOutdated_length markOutdated_nth indicesToOutdate_def)

lemma mapIndicatorPositions_fst:
  "fst (mapIndicatorPositions xs m) =
     map (\<lambda>x. x\<lparr>indicator_positions :=
        \<lparr>pos_start = m (pos_start (indicator_positions x)),
         pos_end = m (pos_end (indicator_positions x))\<rparr>\<rparr>) xs"
  by (induction xs) (auto simp add: Let_def split: prod.splits)

lemma mapIndicatorPositions_snd:
  "snd (mapIndicatorPositions xs m) =
     (\<exists>x \<in> set xs. m (pos_start (indicator_positions x)) \<noteq> pos_start (indicator_positions x)
                   \<or> m (pos_end (indicator_positions x)) \<noteq> pos_end (indicator_positions x))"
  by (induction xs) (auto simp add: Let_def split: prod.splits)

lemma removeEditedIndicators_map:
  "removeEditedIndicators xs selection =
     (map (outdate_edited selection) xs,
      \<exists>x \<in> set xs. cursor_in selection (indicator_positions x),
      snd (snd (removeEditedIndicators xs selection)))"
proof (cases selection)
  case None
  then show ?thesis
    by (simp add: removeEditedIndicators_def outdate_edited_def cursor_in_def map_idI)
next
  case (Some sel)
  show ?thesis
  proof (cases "sel_empty sel")
    case False
    then show ?thesis using Some
      by (simp add: removeEditedIndicators_def outdate_edited_def cursor_in_def sel_empty_def map_idI)
  next
    case True
    let ?p = "sel_from sel"
    have e: "(indicesToOutdate xs ?p = []) =
               (\<not> (\<exists>x \<in> set xs. cursor_inside ?p (indicator_positions x)))"
      by (simp add: indicesToOutdate_def filter_empty_conv Ball_def Bex_def in_set_conv_nth) blast
    have c: "\<And>x. cursor_in (Some sel) (indicator_positions x) = cursor_inside ?p (indicator_positions x)"
      using True by (simp add: cursor_in_def sel_empty_def)
    show ?thesis
    proof (cases "\<exists>x \<in> set xs. cursor_inside ?p (indicator_positions x)")
      case False
      then have "map (outdate_edited (Some sel)) xs = xs"
        by (simp add: outdate_edited_def c map_idI)
      with False e Some True show ?thesis
        by (simp add: removeEditedIndicators_def Let_def c)
    next
      case inside: True
      have "fst (markOutdated (rev (indicesToOutdate xs ?p)) (xs, [])) =
              map (outdate_edited (Some sel)) xs"
        by (simp add: markOutdated_map outdate_edited_def c)
      with inside e Some True show ?thesis
        by (auto simp add: removeEditedIndicators_def Let_def c split: prod.splits)
    qed
  qed
qed

lemma mapIndicatorPositions_remap:
  "mapIndicatorPositions xs m =
     (map (remap m) xs, \<exists>x \<in> set xs. moved m (indicator_positions x))"
  using mapIndicatorPositions_fst [of xs m] mapIndicatorPositions_snd [of xs m]
  by (simp add: remap_def moved_def prod_eq_iff)

lemma reconcile_steps:
  "reconcile storage m selection n =
     (filter (\<lambda>x. \<not> invalid_positions n (indicator_positions x))
        (map (outdate_edited selection) (map (remap m) storage)),
      (\<exists>x \<in> set storage. moved m (indicator_positions x)) \<or>
      (\<exists>x \<in> set (map (remap m) storage). cursor_in selection (indicator_positions x)) \<or>
      (\<exists>x \<in> set (map (outdate_edited selection) (map (remap m) storage)).
          invalid_positions n (indicator_positions x)))"
proof -
  obtain outs where r: "removeEditedIndicators (map (remap m) storage) selection =
      (map (outdate_edited selection) (map (remap m) storage),
       \<exists>x \<in> set (map (remap m) storage). cursor_in selection (indicator_positions x), outs)"
    using removeEditedIndicators_map by blast
  show ?thesis
    by (simp add: reconcile_def mapIndicatorPositions_remap r removeInvalidIndicators_filter
          Let_def disj_assoc)
qed

section \<open>Removal by index\<close>

text \<open>
  C9. \<open>removeBiasIndicator\<close> with an index below 0 or not below the length of the
  collection returns false and leaves the collection as it was, dispatching nothing.
  With an index inside the collection it returns true and stores the collection without
  the element at that index: the elements before it stay where they were, the elements
  after it move down by one, and every remaining element, its display index included,
  is the element it was.
\<close>

theorem removeBiasIndicator_bounds_checked:
  "(index < 0 \<or> int (length storage) \<le> index \<longrightarrow>
      removeBiasIndicator index storage = (storage, None, False)) \<and>
   (0 \<le> index \<and> index < int (length storage) \<longrightarrow>
      (\<exists>result. removeBiasIndicator index storage = (result, Some result, True) \<and>
         length result = length storage - 1 \<and>
         (\<forall>j. j < nat index \<longrightarrow> result ! j = storage ! j) \<and>
         (\<forall>j. nat index \<le> j \<and> j < length result \<longrightarrow> result ! j = storage ! Suc j) \<and>
         map displayIndex result = splice1 (nat index) (map displayIndex storage)))"
proof (intro conjI impI)
  assume "index < 0 \<or> int (length storage) \<le> index"
  then show "removeBiasIndicator index storage = (storage, None, False)"
    by (auto simp add: removeBiasIndicator_def)
next
  assume inside: "0 \<le> index \<and> index < int (length storage)"
  then have i: "nat index < length storage" by linarith
  let ?r = "splice1 (nat index) storage"
  have "removeBiasIndicator index storage = (?r, Some ?r, True)"
    using inside by (simp add: removeBiasIndicator_def Let_def)
  moreover have "length ?r = length storage - 1"
    using i by (rule splice1_length)
  moreover have "\<forall>j. j < nat index \<longrightarrow> ?r ! j = storage ! j"
    using i by (simp add: splice1_nth_before)
  moreover have "\<forall>j. nat index \<le> j \<and> j < length ?r \<longrightarrow> ?r ! j = storage ! Suc j"
  proof (intro allI impI)
    fix j
    assume "nat index \<le> j \<and> j < length ?r"
    then have "nat index \<le> j" and "Suc j < length storage"
      using i by (auto simp add: splice1_length)
    then show "?r ! j = storage ! Suc j" by (rule splice1_nth_after)
  qed
  moreover have "map displayIndex ?r = splice1 (nat index) (map displayIndex storage)"
    by (simp add: splice1_def take_map drop_map)
  ultimately show "\<exists>result. removeBiasIndicator index storage = (result, Some result, True) \<and>
         length result = length storage - 1 \<and>
         (\<forall>j. j < nat index \<longrightarrow> result ! j = storage ! j) \<and>
         (\<forall>j. nat index \<le> j \<and> j < length result \<longrightarrow> result ! j = storage ! Suc j) \<and>
         map displayIndex result = splice1 (nat index) (map displayIndex storage)"
    by blast
qed

theorem removeBiasIndicator_bounds_checked_witness:
  "removeBiasIndicator 3 three_indicators = (three_indicators, None, False) \<and>
   removeBiasIndicator (- 1) three_indicators = (three_indicators, None, False) \<and>
   (\<exists>result. removeBiasIndicator 1 three_indicators = (result, Some result, True) \<and>
      length result = 2 \<and> map displayIndex result = [Some 1, Some 3])"
proof -
  have len: "length three_indicators = 3"
    by (simp add: three_indicators_def)
  have idx: "map displayIndex three_indicators = [Some 1, Some 2, Some 3]"
    by (simp add: three_indicators_def example_indicator_def)
  have above: "removeBiasIndicator 3 three_indicators = (three_indicators, None, False)"
    using removeBiasIndicator_bounds_checked [of 3 three_indicators] len by simp
  have below: "removeBiasIndicator (- 1) three_indicators = (three_indicators, None, False)"
    using removeBiasIndicator_bounds_checked [of "- 1" three_indicators] by simp
  have "\<exists>result. removeBiasIndicator 1 three_indicators = (result, Some result, True) \<and>
      length result = 2 \<and> map displayIndex result = [Some 1, Some 3]"
    using removeBiasIndicator_bounds_checked [of 1 three_indicators] len idx
    by (auto simp add: splice1_def)
  with above below show ?thesis by blast
qed

section \<open>Removal by document position\<close>

lemma removeBiasIndicatorAtPosition_filter:
  "removeBiasIndicatorAtPosition position storage =
     (if \<exists>x \<in> set storage. contains_position position (indicator_positions x)
      then (filter (\<lambda>x. \<not> contains_position position (indicator_positions x)) storage,
            Some (filter (\<lambda>x. \<not> contains_position position (indicator_positions x)) storage),
            True)
      else (storage, None, False))"
  using removeAtLoop_filter [of "length storage" storage position False]
  by (simp add: removeBiasIndicatorAtPosition_def)

text \<open>
  C8 (as amended). \<open>removeBiasIndicatorAtPosition\<close> removes every annotation, active
  or outdated, whose span contains the position with both ends included, and keeps the
  others in their order; when at least one was removed it returns true and dispatches the
  new collection, otherwise it returns false and leaves the storage as it was.
\<close>

theorem removeBiasIndicatorAtPosition_removes_all_containing:
  "((\<forall>x \<in> set storage. \<not> contains_position position (indicator_positions x)) \<longrightarrow>
      removeBiasIndicatorAtPosition position storage = (storage, None, False)) \<and>
   ((\<exists>x \<in> set storage. contains_position position (indicator_positions x)) \<longrightarrow>
      (\<exists>kept. removeBiasIndicatorAtPosition position storage = (kept, Some kept, True) \<and>
         kept = filter (\<lambda>x. \<not> (pos_start (indicator_positions x) \<le> position \<and>
                                 position \<le> pos_end (indicator_positions x))) storage \<and>
         length kept < length storage))"
proof -
  have c: "\<And>x. contains_position position (indicator_positions x) =
             (pos_start (indicator_positions x) \<le> position \<and>
              position \<le> pos_end (indicator_positions x))"
    by (auto simp add: contains_position_def)
  have "(\<exists>x \<in> set storage. contains_position position (indicator_positions x)) \<Longrightarrow>
     length (filter (\<lambda>x. \<not> contains_position position (indicator_positions x)) storage)
       < length storage"
    using length_filter_less [of _ storage
        "\<lambda>x. \<not> contains_position position (indicator_positions x)"]
    by blast
  then show ?thesis
    unfolding removeBiasIndicatorAtPosition_filter by (auto simp add: c)
qed

theorem removeBiasIndicatorAtPosition_removes_all_containing_witness:
  "removeBiasIndicatorAtPosition 15 edited_example = (edited_example, None, False) \<and>
   removeBiasIndicatorAtPosition 7 edited_example =
     ([example_indicator ''c'' 20 30 (Some 3)], Some [example_indicator ''c'' 20 30 (Some 3)], True)"
proof -
  have none: "\<forall>x \<in> set edited_example. \<not> contains_position 15 (indicator_positions x)"
    by (simp add: edited_example_def example_indicator_def contains_position_def)
  have some: "\<exists>x \<in> set edited_example. contains_position 7 (indicator_positions x)"
    by (simp add: edited_example_def example_indicator_def contains_position_def)
  have kept: "filter (\<lambda>x. \<not> (pos_start (indicator_positions x) \<le> 7 \<and>
                 7 \<le> pos_end (indicator_positions x))) edited_example
              = [example_indicator ''c'' 20 30 (Some 3)]"
    by (simp add: edited_example_def example_indicator_def)
  show ?thesis
    using removeBiasIndicatorAtPosition_removes_all_containing [of edited_example 15]
      removeBiasIndicatorAtPosition_removes_all_containing [of edited_example 7]
      none some kept
    by auto
qed

text \<open>
  Against C8 as stated: an outdated annotation whose span contains the position is removed
  like an active one.
\<close>

theorem removeBiasIndicatorAtPosition_drops_outdated:
  "\<not> is_active ((example_indicator ''b'' 6 8 (Some 2))\<lparr>outdated := Some True\<rparr>) \<and>
   removeBiasIndicatorAtPosition 7 [(example_indicator ''b'' 6 8 (Some 2))\<lparr>outdated := Some True\<rparr>]
     = ([], Some [], True)"
  by (simp add: removeBiasIndicatorAtPosition_def contains_position_def example_indicator_def
        is_active_def truthy_bool_def splice1_def)

section \<open>Outdating on an edit inside a span\<close>

lemma cursor_in_cursor:
  "selection = Some sel \<Longrightarrow> sel_from sel = sel_to sel \<Longrightarrow>
   cursor_in selection cp = (sel_from sel > pos_start cp \<and> sel_from sel \<le> pos_end cp)"
  by (simp add: cursor_in_def cursor_inside_def)

lemma indicator_positions_outdate_edited [simp]:
  "indicator_positions (outdate_edited selection x) = indicator_positions x"
  by (simp add: outdate_edited_def)

lemma removeEditedIndicators_fst:
  "fst (removeEditedIndicators xs selection) = map (outdate_edited selection) xs"
  by (subst removeEditedIndicators_map) simp

text \<open>
  C4. In the second step of reconcile (\<open>removeEditedIndicators\<close>, run on the remapped
  collection \<open>xs\<close>): with a cursor selection at \<open>p\<close>, an annotation whose span has
  \<open>start < p \<le> end\<close> is replaced, at its own index, by itself with the outdated flag
  set, and the collection keeps its length; with a range selection the step returns the
  collection as it is with a false flag; a cursor exactly at the start of an annotation
  leaves that annotation as it is. For the whole of reconcile: such an annotation, when
  its remapped span also lies inside the new document, is an element of the resulting
  collection with the outdated flag set, and the flag of reconcile is true.
\<close>

theorem removeEditedIndicators_outdates_on_cursor:
  "(\<forall>sel i. selection = Some sel \<and> sel_from sel = sel_to sel \<and> i < length xs \<and>
        sel_from sel > pos_start (indicator_positions (xs ! i)) \<and>
        sel_from sel \<le> pos_end (indicator_positions (xs ! i)) \<longrightarrow>
        length (fst (removeEditedIndicators xs selection)) = length xs \<and>
        fst (removeEditedIndicators xs selection) ! i = (xs ! i)\<lparr>outdated := Some True\<rparr> \<and>
        \<not> is_active (fst (removeEditedIndicators xs selection) ! i)) \<and>
   (\<forall>sel. selection = Some sel \<and> sel_from sel \<noteq> sel_to sel \<longrightarrow>
        removeEditedIndicators xs selection = (xs, False, [])) \<and>
   (\<forall>sel i. selection = Some sel \<and> i < length xs \<and>
        sel_from sel = pos_start (indicator_positions (xs ! i)) \<longrightarrow>
        fst (removeEditedIndicators xs selection) ! i = xs ! i) \<and>
   (\<forall>sel x. selection = Some sel \<and> sel_from sel = sel_to sel \<and> x \<in> set storage \<and>
        sel_from sel > mapping (pos_start (indicator_positions x)) \<and>
        sel_from sel \<le> mapping (pos_end (indicator_positions x)) \<and>
        1 \<le> mapping (pos_start (indicator_positions x)) \<and>
        mapping (pos_end (indicator_positions x)) \<le> docSize \<longrightarrow>
        (remap mapping x)\<lparr>outdated := Some True\<rparr>
           \<in> set (fst (reconcile storage mapping selection docSize)) \<and>
        snd (reconcile storage mapping selection docSize))"
proof -
  note fst_eq = removeEditedIndicators_fst
  have a: "\<forall>sel i. selection = Some sel \<and> sel_from sel = sel_to sel \<and> i < length xs \<and>
        sel_from sel > pos_start (indicator_positions (xs ! i)) \<and>
        sel_from sel \<le> pos_end (indicator_positions (xs ! i)) \<longrightarrow>
        length (fst (removeEditedIndicators xs selection)) = length xs \<and>
        fst (removeEditedIndicators xs selection) ! i = (xs ! i)\<lparr>outdated := Some True\<rparr> \<and>
        \<not> is_active (fst (removeEditedIndicators xs selection) ! i)"
    by (simp add: fst_eq outdate_edited_def cursor_in_cursor is_active_def truthy_bool_def)
  have b: "\<forall>sel. selection = Some sel \<and> sel_from sel \<noteq> sel_to sel \<longrightarrow>
        removeEditedIndicators xs selection = (xs, False, [])"
    by (simp add: removeEditedIndicators_def sel_empty_def)
  have c: "\<forall>sel i. selection = Some sel \<and> i < length xs \<and>
        sel_from sel = pos_start (indicator_positions (xs ! i)) \<longrightarrow>
        fst (removeEditedIndicators xs selection) ! i = xs ! i"
    by (simp add: fst_eq outdate_edited_def cursor_in_def cursor_inside_def)
  have d: "\<forall>sel x. selection = Some sel \<and> sel_from sel = sel_to sel \<and> x \<in> set storage \<and>
        sel_from sel > mapping (pos_start (indicator_positions x)) \<and>
        sel_from sel \<le> mapping (pos_end (indicator_positions x)) \<and>
        1 \<le> mapping (pos_start (indicator_positions x)) \<and>
        mapping (pos_end (indicator_positions x)) \<le> docSize \<longrightarrow>
        (remap mapping x)\<lparr>outdated := Some True\<rparr>
           \<in> set (fst (reconcile storage mapping selection docSize)) \<and>
        snd (reconcile storage mapping selection docSize)"
  proof (intro allI impI)
    fix sel x
    assume h: "selection = Some sel \<and> sel_from sel = sel_to sel \<and> x \<in> set storage \<and>
        sel_from sel > mapping (pos_start (indicator_positions x)) \<and>
        sel_from sel \<le> mapping (pos_end (indicator_positions x)) \<and>
        1 \<le> mapping (pos_start (indicator_positions x)) \<and>
        mapping (pos_end (indicator_positions x)) \<le> docSize"
    then have inside: "cursor_in selection (indicator_positions (remap mapping x))"
      by (simp add: cursor_in_cursor remap_def)
    then have o: "outdate_edited selection (remap mapping x) = (remap mapping x)\<lparr>outdated := Some True\<rparr>"
      by (simp add: outdate_edited_def)
    have v: "\<not> invalid_positions docSize (indicator_positions (remap mapping x))"
      using h by (auto simp add: invalid_positions_def remap_def)
    have "outdate_edited selection (remap mapping x)
            \<in> set (fst (reconcile storage mapping selection docSize))"
      using h v by (simp add: reconcile_steps)
    moreover have "snd (reconcile storage mapping selection docSize)"
      using h inside by (auto simp add: reconcile_steps)
    ultimately show "(remap mapping x)\<lparr>outdated := Some True\<rparr>
           \<in> set (fst (reconcile storage mapping selection docSize)) \<and>
        snd (reconcile storage mapping selection docSize)"
      using o by simp
  qed
  from a b c d show ?thesis by blast
qed

theorem removeEditedIndicators_outdates_on_cursor_witness:
  "fst (removeEditedIndicators scenario_E (cursor_at 7))
     = [(example_indicator ''brown fox'' 5 10 (Some 1))\<lparr>outdated := Some True\<rparr>] \<and>
   removeEditedIndicators scenario_E (Some \<lparr>sel_from = 6, sel_to = 9\<rparr>) = (scenario_E, False, []) \<and>
   fst (removeEditedIndicators scenario_E (cursor_at 5)) = scenario_E \<and>
   (example_indicator ''brown fox'' 5 10 (Some 1))\<lparr>outdated := Some True\<rparr>
      \<in> set (fst (reconcile scenario_E (\<lambda>p. p) (cursor_at 7) 20))"
proof -
  have len: "length scenario_E = 1" and nth0: "scenario_E ! 0 = example_indicator ''brown fox'' 5 10 (Some 1)"
    by (simp_all add: scenario_E_def)
  have pos: "indicator_positions (example_indicator ''brown fox'' 5 10 (Some 1))
               = \<lparr>pos_start = 5, pos_end = 10\<rparr>"
    by (simp add: example_indicator_def)
  have r: "remap (\<lambda>p. p) (example_indicator ''brown fox'' 5 10 (Some 1))
             = example_indicator ''brown fox'' 5 10 (Some 1)"
    by (simp add: remap_def example_indicator_def)
  have "length (fst (removeEditedIndicators scenario_E (cursor_at 7))) = 1 \<and>
        fst (removeEditedIndicators scenario_E (cursor_at 7)) ! 0
          = (example_indicator ''brown fox'' 5 10 (Some 1))\<lparr>outdated := Some True\<rparr>"
    using removeEditedIndicators_outdates_on_cursor [of "cursor_at 7" scenario_E] len nth0 pos
    by (simp add: cursor_at_def)
  then have one: "fst (removeEditedIndicators scenario_E (cursor_at 7))
     = [(example_indicator ''brown fox'' 5 10 (Some 1))\<lparr>outdated := Some True\<rparr>]"
    by (cases "fst (removeEditedIndicators scenario_E (cursor_at 7))") simp_all
  have two: "removeEditedIndicators scenario_E (Some \<lparr>sel_from = 6, sel_to = 9\<rparr>)
               = (scenario_E, False, [])"
    using removeEditedIndicators_outdates_on_cursor [of "Some \<lparr>sel_from = 6, sel_to = 9\<rparr>" scenario_E]
    by simp
  have "fst (removeEditedIndicators scenario_E (cursor_at 5)) ! 0 = scenario_E ! 0"
    using removeEditedIndicators_outdates_on_cursor [of "cursor_at 5" scenario_E] len nth0 pos
    by (simp add: cursor_at_def)
  moreover have "length (fst (removeEditedIndicators scenario_E (cursor_at 5))) = 1"
    using len by (simp add: removeEditedIndicators_fst)
  ultimately have three: "fst (removeEditedIndicators scenario_E (cursor_at 5)) = scenario_E"
    using len by (intro nth_equalityI) simp_all
  have four: "(example_indicator ''brown fox'' 5 10 (Some 1))\<lparr>outdated := Some True\<rparr>
      \<in> set (fst (reconcile scenario_E (\<lambda>p. p) (cursor_at 7) 20))"
    using removeEditedIndicators_outdates_on_cursor
            [of "cursor_at 7" _ scenario_E "\<lambda>p. p" 20] pos r
    by (simp add: cursor_at_def scenario_E_def)
  from one two three four show ?thesis by blast
qed

section \<open>When reconcile persists and notifies\<close>

lemma apply_tr_edit:
  "\<not> tr_meta tr \<and> tr_docChanged tr \<longrightarrow>
     (reconcile_condition tr storage \<longrightarrow>
        apply_tr tr storage = (reconciled tr storage, Some (reconciled tr storage))) \<and>
     (\<not> reconcile_condition tr storage \<longrightarrow> apply_tr tr storage = (storage, None))"
proof (intro impI)
  assume h: "\<not> tr_meta tr \<and> tr_docChanged tr"
  have f: "fst (reconcile storage (tr_mapping tr) (tr_selection tr) (tr_docSize tr))
             = reconciled tr storage"
    by (simp add: reconcile_steps reconciled_def comp_def)
  have c: "snd (reconcile storage (tr_mapping tr) (tr_selection tr) (tr_docSize tr))
             = reconcile_condition tr storage"
    by (auto simp add: reconcile_steps reconcile_condition_def list_ex_iff)
  obtain r ch where rc: "reconcile storage (tr_mapping tr) (tr_selection tr) (tr_docSize tr) = (r, ch)"
    by (cases "reconcile storage (tr_mapping tr) (tr_selection tr) (tr_docSize tr)")
  from f c rc have "r = reconciled tr storage" and "ch = reconcile_condition tr storage"
    by simp_all
  with h rc show "(reconcile_condition tr storage \<longrightarrow>
        apply_tr tr storage = (reconciled tr storage, Some (reconciled tr storage))) \<and>
     (\<not> reconcile_condition tr storage \<longrightarrow> apply_tr tr storage = (storage, None))"
    by (simp add: apply_tr_def)
qed

text \<open>
  C6 (as amended). For a transaction that changed the document and carries no meta flag,
  \<open>apply\<close> stores the reconciled collection (remapped, outdated under the cursor,
  invalid spans filtered out) and dispatches it exactly when, for some stored
  annotation, the mapping moved its start or end, or the selection is a cursor \<open>p\<close> with
  \<open>start < p \<le> end\<close> for its remapped span (whether or not it was outdated already),
  or its remapped span is invalid for the new document; otherwise the storage is left as
  it was and nothing is dispatched.
\<close>

theorem apply_tr_notifies_iff:
  "\<not> tr_meta tr \<and> tr_docChanged tr \<longrightarrow>
     (reconcile_condition tr storage \<longrightarrow>
        apply_tr tr storage = (reconciled tr storage, Some (reconciled tr storage))) \<and>
     (\<not> reconcile_condition tr storage \<longrightarrow> apply_tr tr storage = (storage, None))"
  by (rule apply_tr_edit)

theorem apply_tr_notifies_iff_witness:
  "apply_tr (edit_at (\<lambda>p. if p \<ge> 3 then p + 1 else p) (cursor_at 4) 21) scenario_E
     = ([example_indicator ''brown fox'' 6 11 (Some 1)],
        Some [example_indicator ''brown fox'' 6 11 (Some 1)]) \<and>
   apply_tr (edit_at (\<lambda>p. p) (cursor_at 12) 20) scenario_E = (scenario_E, None)"
proof -
  have m: "\<not> tr_meta (edit_at (\<lambda>p. if p \<ge> 3 then p + 1 else p) (cursor_at 4) 21) \<and>
           tr_docChanged (edit_at (\<lambda>p. if p \<ge> 3 then p + 1 else p) (cursor_at 4) 21)"
    by (simp add: edit_at_def)
  have c1: "reconcile_condition (edit_at (\<lambda>p. if p \<ge> 3 then p + 1 else p) (cursor_at 4) 21) scenario_E"
    by (simp add: reconcile_condition_def edit_at_def scenario_E_def example_indicator_def moved_def)
  have r1: "reconciled (edit_at (\<lambda>p. if p \<ge> 3 then p + 1 else p) (cursor_at 4) 21) scenario_E
              = [example_indicator ''brown fox'' 6 11 (Some 1)]"
    by (simp add: reconciled_def edit_at_def scenario_E_def example_indicator_def remap_def
          outdate_edited_def cursor_in_def cursor_at_def cursor_inside_def invalid_positions_def)
  have n: "\<not> tr_meta (edit_at (\<lambda>p. p) (cursor_at 12) 20) \<and>
           tr_docChanged (edit_at (\<lambda>p. p) (cursor_at 12) 20)"
    by (simp add: edit_at_def)
  have c2: "\<not> reconcile_condition (edit_at (\<lambda>p. p) (cursor_at 12) 20) scenario_E"
    by (simp add: reconcile_condition_def edit_at_def scenario_E_def example_indicator_def moved_def
          remap_def cursor_in_def cursor_at_def cursor_inside_def invalid_positions_def)
  show ?thesis
    using apply_tr_notifies_iff [of "edit_at (\<lambda>p. if p \<ge> 3 then p + 1 else p) (cursor_at 4) 21" scenario_E]
      apply_tr_notifies_iff [of "edit_at (\<lambda>p. p) (cursor_at 12) 20" scenario_E]
      m c1 r1 n c2
    by simp
qed

text \<open>
  Against C6 as stated: an annotation with span \<open>{5,10}\<close> that is outdated already, the
  cursor at its end, and an edit that deletes the character after the cursor, so that
  the mapping moves neither end of the span and the cursor stays where it was. None of
  the three steps changes the collection, and \<open>apply\<close> still stores and dispatches it.
\<close>

theorem apply_tr_notifies_without_change:
  "fst (mapIndicatorPositions [outdated_example] (\<lambda>p. if p > 10 then p - 1 else p))
     = [outdated_example] \<and>
   fst (removeEditedIndicators [outdated_example] (cursor_at 10)) = [outdated_example] \<and>
   fst (removeInvalidIndicators [outdated_example] 19) = [outdated_example] \<and>
   apply_tr (edit_at (\<lambda>p. if p > 10 then p - 1 else p) (cursor_at 10) 19) [outdated_example]
     = ([outdated_example], Some [outdated_example])"
  by (simp add: outdated_example_def example_indicator_def cursor_at_def edit_at_def
        apply_tr_def reconcile_def removeEditedIndicators_def removeInvalidIndicators_def
        indicesToOutdate_def indicesToRemove_def sel_empty_def cursor_inside_def
        invalid_positions_def Let_def)

section \<open>The span invariant over a session\<close>

lemma span_in_document_valid:
  "span_in_document n cp = (\<not> invalid_positions n cp)"
  by (auto simp add: span_in_document_def invalid_positions_def)

lemma remap_unmoved:
  "\<not> moved m (indicator_positions x) \<Longrightarrow> remap m x = x"
  by (simp add: moved_def remap_def)

lemma reconcile_establishes:
  "session_valid (step s (Reconcile mapping selection newSize))"
proof -
  let ?tr = "\<lparr>tr_meta = False, tr_docChanged = True, tr_mapping = mapping,
              tr_selection = selection, tr_docSize = newSize\<rparr>"
  show ?thesis
  proof (cases "reconcile_condition ?tr (collection s)")
    case True
    then have "apply_tr ?tr (collection s) = (reconciled ?tr (collection s), Some (reconciled ?tr (collection s)))"
      using apply_tr_edit [of ?tr "collection s"] by simp
    then show ?thesis
      by (simp add: session_valid_def reconciled_def list_all_iff span_in_document_valid)
  next
    case False
    then have a: "apply_tr ?tr (collection s) = (collection s, None)"
      using apply_tr_edit [of ?tr "collection s"] by simp
    have "\<forall>x \<in> set (collection s). \<not> invalid_positions newSize (indicator_positions x)"
    proof
      fix x
      assume x: "x \<in> set (collection s)"
      with False have nm: "\<not> moved mapping (indicator_positions x)"
        and ni: "\<not> invalid_positions newSize (indicator_positions (remap mapping x))"
        by (auto simp add: reconcile_condition_def list_ex_iff)
      from nm have "remap mapping x = x" by (rule remap_unmoved)
      with ni show "\<not> invalid_positions newSize (indicator_positions x)" by simp
    qed
    then show ?thesis using a
      by (simp add: session_valid_def list_all_iff span_in_document_valid)
  qed
qed

lemma set_splice1: "set (splice1 i xs) \<subseteq> set xs"
  by (auto simp add: splice1_def dest: in_set_takeD in_set_dropD)

lemma step_preserves:
  "\<not> replaces_collection operation \<Longrightarrow> session_valid s \<Longrightarrow> session_valid (step s operation)"
proof (cases operation)
  case (SetAnnotations candidates normPos)
  assume "\<not> replaces_collection operation"
  with SetAnnotations show ?thesis by simp
next
  case Clear
  then show ?thesis by (simp add: session_valid_def clearBiasIndicators_def)
next
  case (RemoveAt index)
  assume "session_valid s"
  then show ?thesis using RemoveAt set_splice1 [of "nat index" "collection s"]
    by (auto simp add: session_valid_def removeBiasIndicator_def list_all_iff Let_def)
next
  case (RemoveAtDocumentPosition position)
  assume "session_valid s"
  then show ?thesis using RemoveAtDocumentPosition
    by (auto simp add: session_valid_def removeBiasIndicatorAtPosition_filter list_all_iff)
next
  case (Reconcile mapping selection newSize)
  then show ?thesis using reconcile_establishes by simp
qed

lemma run_preserves:
  "list_all (\<lambda>operation. \<not> replaces_collection operation) ops \<Longrightarrow> session_valid s \<Longrightarrow>
   session_valid (run s ops)"
  unfolding run_def
  by (induction ops arbitrary: s) (simp_all add: step_preserves)

text \<open>
  C2 (as amended). After a reconcile, and after any further sequence of clear, removeAt,
  removeAtDocumentPosition and reconcile operations, every annotation of the stored
  collection, active or outdated, has \<open>1 \<le> start < end \<le> documentSize\<close> for the
  current size of the document. (\<open>setAnnotations\<close> stores the spans it is given without
  looking at the document, so the bound holds again only from the next reconcile on.)
\<close>

theorem spans_in_document_after_reconcile:
  "list_all (\<lambda>operation. \<not> replaces_collection operation) ops \<longrightarrow>
   (\<forall>x \<in> set (collection (run (step s (Reconcile mapping selection newSize)) ops)).
      1 \<le> pos_start (indicator_positions x) \<and>
      pos_start (indicator_positions x) < pos_end (indicator_positions x) \<and>
      pos_end (indicator_positions x)
        \<le> documentSize (run (step s (Reconcile mapping selection newSize)) ops))"
proof
  assume "list_all (\<lambda>operation. \<not> replaces_collection operation) ops"
  then have "session_valid (run (step s (Reconcile mapping selection newSize)) ops)"
    using reconcile_establishes by (rule run_preserves)
  then show "\<forall>x \<in> set (collection (run (step s (Reconcile mapping selection newSize)) ops)).
      1 \<le> pos_start (indicator_positions x) \<and>
      pos_start (indicator_positions x) < pos_end (indicator_positions x) \<and>
      pos_end (indicator_positions x)
        \<le> documentSize (run (step s (Reconcile mapping selection newSize)) ops)"
    by (simp add: session_valid_def list_all_iff span_in_document_def)
qed

text \<open>
  The witness: three annotations with spans \<open>{5,10}\<close>, \<open>{6,8}\<close> (outdated) and
  \<open>{20,30}\<close>; an edit that leaves the spans where they were and a document of size 12
  afterwards (the third annotation is dropped); then the first annotation is removed by
  index.
\<close>

theorem spans_in_document_after_reconcile_witness:
  "list_all (\<lambda>operation. \<not> replaces_collection operation) [RemoveAt 0] \<and>
   collection (run (step \<lparr>collection = edited_example, documentSize = 40\<rparr>
                      (Reconcile (\<lambda>p. p) None 12)) [RemoveAt 0])
     = [(example_indicator ''b'' 6 8 (Some 2))\<lparr>outdated := Some True\<rparr>] \<and>
   1 \<le> pos_start (indicator_positions
          ((example_indicator ''b'' 6 8 (Some 2))\<lparr>outdated := Some True\<rparr>)) \<and>
   pos_start (indicator_positions ((example_indicator ''b'' 6 8 (Some 2))\<lparr>outdated := Some True\<rparr>))
     < pos_end (indicator_positions ((example_indicator ''b'' 6 8 (Some 2))\<lparr>outdated := Some True\<rparr>)) \<and>
   pos_end (indicator_positions ((example_indicator ''b'' 6 8 (Some 2))\<lparr>outdated := Some True\<rparr>))
     \<le> documentSize (run (step \<lparr>collection = edited_example, documentSize = 40\<rparr>
                                (Reconcile (\<lambda>p. p) None 12)) [RemoveAt 0])"
proof -
  have ops: "list_all (\<lambda>operation. \<not> replaces_collection operation) [RemoveAt 0]"
    by simp
  have kept: "collection (run (step \<lparr>collection = edited_example, documentSize = 40\<rparr>
                      (Reconcile (\<lambda>p. p) None 12)) [RemoveAt 0])
     = [(example_indicator ''b'' 6 8 (Some 2))\<lparr>outdated := Some True\<rparr>]"
    by (simp add: run_def edited_example_def example_indicator_def apply_tr_def reconcile_def
          removeEditedIndicators_def removeInvalidIndicators_def indicesToRemove_def
          removeBiasIndicator_def invalid_positions_def splice1_def Let_def)
  then have mem: "(example_indicator ''b'' 6 8 (Some 2))\<lparr>outdated := Some True\<rparr>
      \<in> set (collection (run (step \<lparr>collection = edited_example, documentSize = 40\<rparr>
                                  (Reconcile (\<lambda>p. p) None 12)) [RemoveAt 0]))"
    by simp
  from spans_in_document_after_reconcile
         [of "[RemoveAt 0]" "\<lparr>collection = edited_example, documentSize = 40\<rparr>" "\<lambda>p. p" None 12,
          rule_format, OF ops mem]
    ops kept
  show ?thesis by blast
qed

text \<open>
  Against C2 as stated: \<open>setAnnotations\<close> on a document of size 10 with a candidate whose
  span is \<open>{20,30}\<close> stores an active annotation with span \<open>{21,31}\<close>.
\<close>

theorem setAnnotations_stores_span_outside_document:
  "collection (run \<lparr>collection = [], documentSize = 10\<rparr>
                 [SetAnnotations [example_indicator ''clearly'' 20 30 None] True])
     = [example_indicator ''clearly'' 21 31 (Some 1)] \<and>
   is_active (example_indicator ''clearly'' 21 31 (Some 1)) \<and>
   documentSize (run \<lparr>collection = [], documentSize = 10\<rparr>
                 [SetAnnotations [example_indicator ''clearly'' 20 30 None] True]) = 10 \<and>
   \<not> pos_end (indicator_positions (example_indicator ''clearly'' 21 31 (Some 1))) \<le> 10"
  by (simp add: run_def setBiasIndicators_def maxDisplayIndex_def example_indicator_def
        truthy_num_def is_active_def truthy_bool_def Let_def)

section \<open>Display indices across \<open>setAnnotations\<close> calls\<close>

text \<open>
  C1 fails on the code. \<open>setBiasIndicators\<close> empties the storage before it looks for the
  largest display index in it, so the next display index is always 1: a second call hands
  out to a different annotation the index the first call gave. \<open>setLexiconTerms\<close> does
  the same.
\<close>

theorem setBiasIndicators_reuses_display_index:
  "fst (setBiasIndicators [example_indicator ''clearly'' 0 7 None] True [])
     = [example_indicator ''clearly'' 1 8 (Some 1)] \<and>
   fst (setBiasIndicators [example_indicator ''obviously'' 10 19 None] True
          [example_indicator ''clearly'' 1 8 (Some 1)])
     = [example_indicator ''obviously'' 11 20 (Some 1)] \<and>
   fst (setLexiconTerms [example_term ''paradigm'' 0 8 None] [])
     = [example_term ''paradigm'' 1 9 (Some 1)] \<and>
   fst (setLexiconTerms [example_term ''heuristic'' 10 19 None]
          [example_term ''paradigm'' 1 9 (Some 1)])
     = [example_term ''heuristic'' 11 20 (Some 1)]"
  by (simp add: setBiasIndicators_def setLexiconTerms_def maxDisplayIndex_def
        maxTermDisplayIndex_def example_indicator_def example_term_def truthy_num_def Let_def)

section \<open>The two engines reconcile alike\<close>

lemma removeInvalidTerms_filter:
  "removeInvalidTerms terms docSize =
     (filter (\<lambda>x. \<not> invalid_positions docSize (term_positions x)) terms,
      \<exists>x \<in> set terms. invalid_positions docSize (term_positions x))"
proof -
  let ?P = "\<lambda>x. invalid_positions docSize (term_positions x)"
  have f: "fold splice1 (rev (termsToRemove terms docSize)) terms = filter (\<lambda>x. \<not> ?P x) terms"
    using fold_splice1_filter [of "length terms" terms ?P]
    by (simp add: termsToRemove_def)
  have e: "(termsToRemove terms docSize = []) = (\<not> (\<exists>x \<in> set terms. ?P x))"
    by (simp add: termsToRemove_def filter_empty_conv Ball_def Bex_def in_set_conv_nth) blast
  show ?thesis
  proof (cases "\<exists>x \<in> set terms. ?P x")
    case True
    then show ?thesis using e f by (simp add: removeInvalidTerms_def Let_def)
  next
    case False
    then have "filter (\<lambda>x. \<not> ?P x) terms = terms" by (simp add: filter_id_conv)
    then show ?thesis using False e by (simp add: removeInvalidTerms_def Let_def)
  qed
qed

lemma markTermsOutdated_length:
  "length (fst (markTermsOutdated js (xs, outs))) = length xs"
  by (induction js arbitrary: xs outs) (simp_all add: Let_def)

lemma markTermsOutdated_nth:
  "i < length xs \<Longrightarrow>
   fst (markTermsOutdated js (xs, outs)) ! i =
     (if i \<in> set js then (xs ! i)\<lparr>term_outdated := Some True\<rparr> else xs ! i)"
proof (induction js arbitrary: xs outs)
  case Nil
  then show ?case by simp
next
  case (Cons j js)
  then show ?case
    by (cases "i = j") (simp_all add: Let_def)
qed

lemma markTermsOutdated_map:
  "fst (markTermsOutdated (rev (termsToOutdate xs p)) (xs, [])) =
     map (\<lambda>x. if cursor_inside p (term_positions x) then x\<lparr>term_outdated := Some True\<rparr> else x) xs"
  by (rule nth_equalityI)
     (auto simp add: markTermsOutdated_length markTermsOutdated_nth termsToOutdate_def)

lemma mapTermPositions_remap:
  "mapTermPositions xs m =
     (map (remap_term m) xs, \<exists>x \<in> set xs. moved m (term_positions x))"
proof -
  have "fst (mapTermPositions xs m) = map (remap_term m) xs"
    by (induction xs) (auto simp add: Let_def remap_term_def split: prod.splits)
  moreover have "snd (mapTermPositions xs m) = (\<exists>x \<in> set xs. moved m (term_positions x))"
    by (induction xs) (auto simp add: Let_def moved_def split: prod.splits)
  ultimately show ?thesis by (simp add: prod_eq_iff)
qed

lemma removeEditedTerms_map:
  "removeEditedTerms xs selection =
     (map (outdate_edited_term selection) xs,
      \<exists>x \<in> set xs. cursor_in selection (term_positions x),
      snd (snd (removeEditedTerms xs selection)))"
proof (cases selection)
  case None
  then show ?thesis
    by (simp add: removeEditedTerms_def outdate_edited_term_def cursor_in_def map_idI)
next
  case (Some sel)
  show ?thesis
  proof (cases "sel_empty sel")
    case False
    then show ?thesis using Some
      by (simp add: removeEditedTerms_def outdate_edited_term_def cursor_in_def sel_empty_def map_idI)
  next
    case True
    let ?p = "sel_from sel"
    have e: "(termsToOutdate xs ?p = []) =
               (\<not> (\<exists>x \<in> set xs. cursor_inside ?p (term_positions x)))"
      by (simp add: termsToOutdate_def filter_empty_conv Ball_def Bex_def in_set_conv_nth) blast
    have c: "\<And>cp. cursor_in (Some sel) cp = cursor_inside ?p cp"
      using True by (simp add: cursor_in_def sel_empty_def)
    show ?thesis
    proof (cases "\<exists>x \<in> set xs. cursor_inside ?p (term_positions x)")
      case False
      then have "map (outdate_edited_term (Some sel)) xs = xs"
        by (simp add: outdate_edited_term_def c map_idI)
      with False e Some True show ?thesis
        by (simp add: removeEditedTerms_def Let_def c)
    next
      case inside: True
      have "fst (markTermsOutdated (rev (termsToOutdate xs ?p)) (xs, [])) =
              map (outdate_edited_term (Some sel)) xs"
        by (simp add: markTermsOutdated_map outdate_edited_term_def c)
      with inside e Some True show ?thesis
        by (auto simp add: removeEditedTerms_def Let_def c split: prod.splits)
    qed
  qed
qed

lemma reconcileTerms_steps:
  "reconcileTerms stored m selection n =
     (filter (\<lambda>x. \<not> invalid_positions n (term_positions x))
        (map (outdate_edited_term selection) (map (remap_term m) stored)),
      (\<exists>x \<in> set stored. moved m (term_positions x)) \<or>
      (\<exists>x \<in> set (map (remap_term m) stored). cursor_in selection (term_positions x)) \<or>
      (\<exists>x \<in> set (map (outdate_edited_term selection) (map (remap_term m) stored)).
          invalid_positions n (term_positions x)))"
proof -
  obtain outs where r: "removeEditedTerms (map (remap_term m) stored) selection =
      (map (outdate_edited_term selection) (map (remap_term m) stored),
       \<exists>x \<in> set (map (remap_term m) stored). cursor_in selection (term_positions x), outs)"
    using removeEditedTerms_map by blast
  show ?thesis
    by (simp add: reconcileTerms_def mapTermPositions_remap r removeInvalidTerms_filter
          Let_def disj_assoc)
qed

lemma reconcile_as_view:
  "map bias_view (fst (reconcile bs m selection n)) = fst (reconcile_view (map bias_view bs) m selection n)"
  "snd (reconcile bs m selection n) = snd (reconcile_view (map bias_view bs) m selection n)"
proof -
  have p: "\<And>x. indicator_positions (outdate_edited selection (remap m x)) =
     \<lparr>pos_start = m (pos_start (indicator_positions x)), pos_end = m (pos_end (indicator_positions x))\<rparr>"
    by (simp add: outdate_edited_def remap_def)
  have q: "\<And>x. indicator_positions (remap m x) =
     \<lparr>pos_start = m (pos_start (indicator_positions x)), pos_end = m (pos_end (indicator_positions x))\<rparr>"
    by (simp add: remap_def)
  have o: "\<And>x. outdated (outdate_edited selection (remap m x)) =
     (if cursor_in selection \<lparr>pos_start = m (pos_start (indicator_positions x)),
                               pos_end = m (pos_end (indicator_positions x))\<rparr>
      then Some True else outdated x)"
    by (simp add: outdate_edited_def remap_def)
  show "map bias_view (fst (reconcile bs m selection n))
          = fst (reconcile_view (map bias_view bs) m selection n)"
    by (induction bs)
       (simp_all add: reconcile_steps reconcile_view_def Let_def comp_def p q o bias_view_def)
  show "snd (reconcile bs m selection n) = snd (reconcile_view (map bias_view bs) m selection n)"
    by (simp add: reconcile_steps reconcile_view_def Let_def comp_def list_ex_iff p q bias_view_def)
qed

lemma reconcileTerms_as_view:
  "map term_view (fst (reconcileTerms ts m selection n)) = fst (reconcile_view (map term_view ts) m selection n)"
  "snd (reconcileTerms ts m selection n) = snd (reconcile_view (map term_view ts) m selection n)"
proof -
  have p: "\<And>x. term_positions (outdate_edited_term selection (remap_term m x)) =
     \<lparr>pos_start = m (pos_start (term_positions x)), pos_end = m (pos_end (term_positions x))\<rparr>"
    by (simp add: outdate_edited_term_def remap_term_def)
  have q: "\<And>x. term_positions (remap_term m x) =
     \<lparr>pos_start = m (pos_start (term_positions x)), pos_end = m (pos_end (term_positions x))\<rparr>"
    by (simp add: remap_term_def)
  have o: "\<And>x. term_outdated (outdate_edited_term selection (remap_term m x)) =
     (if cursor_in selection \<lparr>pos_start = m (pos_start (term_positions x)),
                               pos_end = m (pos_end (term_positions x))\<rparr>
      then Some True else term_outdated x)"
    by (simp add: outdate_edited_term_def remap_term_def)
  show "map term_view (fst (reconcileTerms ts m selection n))
          = fst (reconcile_view (map term_view ts) m selection n)"
    by (induction ts)
       (simp_all add: reconcileTerms_steps reconcile_view_def Let_def comp_def p q o term_view_def)
  show "snd (reconcileTerms ts m selection n) = snd (reconcile_view (map term_view ts) m selection n)"
    by (simp add: reconcileTerms_steps reconcile_view_def Let_def comp_def list_ex_iff p q term_view_def)
qed

text \<open>
  C10. Given a list of bias indicators and a list of lexicon terms with the same spans
  and the same outdated flags, position by position, the bias pipeline
  (\<open>mapIndicatorPositions\<close>, \<open>removeEditedIndicators\<close>, \<open>removeInvalidIndicators\<close>) and the
  lexicon pipeline (\<open>mapTermPositions\<close>, \<open>removeEditedTerms\<close>, \<open>removeInvalidTerms\<close>)
  return, for every mapping, selection and document size, collections with the same spans
  and the same outdated flags, position by position, and the same changed verdict.
\<close>

theorem reconcile_engines_agree:
  "map bias_view bs = map term_view ts \<longrightarrow>
     map bias_view (fst (reconcile bs mapping selection docSize))
       = map term_view (fst (reconcileTerms ts mapping selection docSize)) \<and>
     snd (reconcile bs mapping selection docSize)
       = snd (reconcileTerms ts mapping selection docSize)"
  by (simp add: reconcile_as_view reconcileTerms_as_view)

theorem reconcile_engines_agree_witness:
  "map bias_view edited_example = map term_view example_terms \<and>
   map bias_view (fst (reconcile edited_example (\<lambda>p. if p \<ge> 7 then p + 2 else p) (cursor_at 9) 25))
     = [(\<lparr>pos_start = 5, pos_end = 12\<rparr>, Some True), (\<lparr>pos_start = 6, pos_end = 10\<rparr>, Some True)] \<and>
   map term_view (fst (reconcileTerms example_terms (\<lambda>p. if p \<ge> 7 then p + 2 else p) (cursor_at 9) 25))
     = [(\<lparr>pos_start = 5, pos_end = 12\<rparr>, Some True), (\<lparr>pos_start = 6, pos_end = 10\<rparr>, Some True)] \<and>
   snd (reconcileTerms example_terms (\<lambda>p. if p \<ge> 7 then p + 2 else p) (cursor_at 9) 25)"
proof -
  have same: "map bias_view edited_example = map term_view example_terms"
    by (simp add: edited_example_def example_terms_def example_indicator_def example_term_def
          bias_view_def term_view_def)
  have b: "map bias_view (fst (reconcile edited_example (\<lambda>p. if p \<ge> 7 then p + 2 else p) (cursor_at 9) 25))
     = [(\<lparr>pos_start = 5, pos_end = 12\<rparr>, Some True), (\<lparr>pos_start = 6, pos_end = 10\<rparr>, Some True)]"
    by (simp add: reconcile_steps edited_example_def example_indicator_def remap_def
          outdate_edited_def cursor_in_def cursor_at_def cursor_inside_def invalid_positions_def
          bias_view_def)
  have c: "snd (reconcile edited_example (\<lambda>p. if p \<ge> 7 then p + 2 else p) (cursor_at 9) 25)"
    by (simp add: reconcile_steps edited_example_def example_indicator_def moved_def)
  show ?thesis
    using reconcile_engines_agree
            [of edited_example example_terms "\<lambda>p. if p \<ge> 7 then p + 2 else p" "cursor_at 9" 25]
      same b c
    by simp
qed

section \<open>The phrase locator\<close>

lemma regex_exec_Some:
  assumes "regex_exec text phrase lastIndex = Some i"
  shows "lastIndex \<le> i" and "match_at text phrase i"
proof -
  from assms obtain k where k: "k < length [lastIndex ..< Suc (length text)]"
      and m: "match_at text phrase ([lastIndex ..< Suc (length text)] ! k)"
      and i: "i = [lastIndex ..< Suc (length text)] ! k"
    unfolding regex_exec_def find_Some_iff by blast
  from k have "lastIndex + k < Suc (length text)" by (simp del: upt_Suc)
  then have "[lastIndex ..< Suc (length text)] ! k = lastIndex + k" by (rule nth_upt)
  with i m show "lastIndex \<le> i" and "match_at text phrase i" by simp_all
qed

lemma exec_loop_empty: "exec_loop body [] lastIndex = []"
  by (subst exec_loop.simps) simp

lemma exec_loop_None:
  "phrase \<noteq> [] \<Longrightarrow> regex_exec body phrase lastIndex = None \<Longrightarrow>
   exec_loop body phrase lastIndex = []"
  by (subst exec_loop.simps) simp

lemma exec_loop_Some:
  "phrase \<noteq> [] \<Longrightarrow> regex_exec body phrase lastIndex = Some i \<Longrightarrow>
   exec_loop body phrase lastIndex =
     \<lparr>pos_start = int i, pos_end = int i + int (length phrase)\<rparr>
       # exec_loop body phrase (i + length phrase)"
  by (subst exec_loop.simps) simp

lemma exec_loop_sound:
  "sp \<in> set (exec_loop body phrase lastIndex) \<Longrightarrow>
   \<exists>i. lastIndex \<le> i \<and> match_at body phrase i \<and> phrase \<noteq> [] \<and>
       sp = \<lparr>pos_start = int i, pos_end = int i + int (length phrase)\<rparr>"
proof (induction body phrase lastIndex rule: exec_loop.induct)
  case (1 body phrase lastIndex)
  show ?case
  proof (cases "phrase = []")
    case True
    with "1.prems" show ?thesis by (simp add: exec_loop_empty)
  next
    case ne: False
    show ?thesis
    proof (cases "regex_exec body phrase lastIndex")
      case None
      with ne "1.prems" show ?thesis by (simp add: exec_loop_None)
    next
      case (Some j)
      from Some have j: "lastIndex \<le> j" "match_at body phrase j"
        by (rule regex_exec_Some)+
      from ne Some "1.prems"
      have "sp = \<lparr>pos_start = int j, pos_end = int j + int (length phrase)\<rparr>
            \<or> sp \<in> set (exec_loop body phrase (j + length phrase))"
        by (simp add: exec_loop_Some)
      then show ?thesis
      proof
        assume "sp = \<lparr>pos_start = int j, pos_end = int j + int (length phrase)\<rparr>"
        with j ne show ?thesis by blast
      next
        assume "sp \<in> set (exec_loop body phrase (j + length phrase))"
        with "1.IH" [OF ne Some] obtain i where
          "j + length phrase \<le> i" "match_at body phrase i"
          "sp = \<lparr>pos_start = int i, pos_end = int i + int (length phrase)\<rparr>"
          by blast
        with j ne show ?thesis by (intro exI [of _ i]) simp
      qed
    qed
  qed
qed

lemma exec_loop_ascending:
  "ascending_disjoint (exec_loop body phrase lastIndex) \<and>
   (\<forall>sp \<in> set (exec_loop body phrase lastIndex). int lastIndex \<le> pos_start sp)"
proof (induction body phrase lastIndex rule: exec_loop.induct)
  case (1 body phrase lastIndex)
  show ?case
  proof (cases "phrase = []")
    case True
    then show ?thesis by (simp add: exec_loop_empty)
  next
    case ne: False
    show ?thesis
    proof (cases "regex_exec body phrase lastIndex")
      case None
      with ne show ?thesis by (simp add: exec_loop_None)
    next
      case (Some j)
      from Some have j: "lastIndex \<le> j" by (rule regex_exec_Some)
      let ?rest = "exec_loop body phrase (j + length phrase)"
      from "1.IH" [OF ne Some] have asc: "ascending_disjoint ?rest"
        and lb: "\<forall>sp \<in> set ?rest. int (j + length phrase) \<le> pos_start sp"
        by simp_all
      have e: "exec_loop body phrase lastIndex
                 = \<lparr>pos_start = int j, pos_end = int j + int (length phrase)\<rparr> # ?rest"
        using ne Some by (rule exec_loop_Some)
      have "ascending_disjoint (\<lparr>pos_start = int j, pos_end = int j + int (length phrase)\<rparr> # ?rest)"
        using asc lb by (cases ?rest) simp_all
      moreover have "\<forall>sp \<in> set (\<lparr>pos_start = int j, pos_end = int j + int (length phrase)\<rparr> # ?rest).
                        int lastIndex \<le> pos_start sp"
        using lb j by auto
      ultimately show ?thesis unfolding e by simp
    qed
  qed
qed

text \<open>
  C5. For every text and phrase, every span that \<open>findPhrasePositions\<close> returns lies in
  the text and is not empty; the slice of the text it delimits equals the phrase code
  unit by code unit after case canonicalisation; the character before its start, when
  there is one, and the character at its end, when there is one, are not word
  characters; the spans come in ascending order, each ending at or before the start of
  the next; and an empty or whitespace-only phrase gives the empty list.
\<close>

theorem findPhrasePositions_spans:
  "(\<forall>sp \<in> set (findPhrasePositions text phrase).
      0 \<le> pos_start sp \<and> pos_start sp < pos_end sp \<and> pos_end sp \<le> int (length text) \<and>
      map canonicalize (slice text (pos_start sp) (pos_end sp)) = map canonicalize phrase \<and>
      (pos_start sp = 0 \<or> \<not> is_word_char (text ! (nat (pos_start sp) - 1))) \<and>
      (pos_end sp = int (length text) \<or> \<not> is_word_char (text ! nat (pos_end sp)))) \<and>
   ascending_disjoint (findPhrasePositions text phrase) \<and>
   (phrase = [] \<or> js_trim phrase = [] \<longrightarrow> findPhrasePositions text phrase = [])"
proof (intro conjI ballI)
  fix sp
  assume "sp \<in> set (findPhrasePositions text phrase)"
  then have "sp \<in> set (exec_loop text phrase 0)"
    by (simp add: findPhrasePositions_def split: if_splits)
  then obtain i where m: "match_at text phrase i" and ne: "phrase \<noteq> []"
    and sp: "sp = \<lparr>pos_start = int i, pos_end = int i + int (length phrase)\<rparr>"
    using exec_loop_sound by blast
  from ne have len: "0 < length phrase" by simp
  show "0 \<le> pos_start sp" using sp by simp
  show "pos_start sp < pos_end sp" using sp len by simp
  show "pos_end sp \<le> int (length text)" using sp m by (simp add: match_at_def)
  show "map canonicalize (slice text (pos_start sp) (pos_end sp)) = map canonicalize phrase"
    using sp m by (simp add: match_at_def slice_def nat_add_distrib)
  show "pos_start sp = 0 \<or> \<not> is_word_char (text ! (nat (pos_start sp) - 1))"
    using sp m by (auto simp add: match_at_def)
  show "pos_end sp = int (length text) \<or> \<not> is_word_char (text ! nat (pos_end sp))"
    using sp m by (auto simp add: match_at_def nat_add_distrib)
next
  show "ascending_disjoint (findPhrasePositions text phrase)"
    using exec_loop_ascending [of _ phrase 0] by (simp add: findPhrasePositions_def)
next
  show "phrase = [] \<or> js_trim phrase = [] \<longrightarrow> findPhrasePositions text phrase = []"
    by (simp add: findPhrasePositions_def)
qed

lemma the_cat_positions:
  "findPhrasePositions the_cat_text ''the''
     = [\<lparr>pos_start = 0, pos_end = 3\<rparr>, \<lparr>pos_start = 12, pos_end = 15\<rparr>,
        \<lparr>pos_start = 24, pos_end = 27\<rparr>]"
  unfolding the_cat_text_def by code_simp

theorem findPhrasePositions_spans_witness:
  "\<lparr>pos_start = 12, pos_end = 15\<rparr> \<in> set (findPhrasePositions the_cat_text ''the'') \<and>
   map canonicalize (slice the_cat_text 12 15) = map canonicalize ''the'' \<and>
   \<not> is_word_char (the_cat_text ! 11) \<and> \<not> is_word_char (the_cat_text ! 15) \<and>
   ascending_disjoint (findPhrasePositions the_cat_text ''the'') \<and>
   findPhrasePositions the_cat_text ''  '' = []"
proof -
  have mem: "\<lparr>pos_start = 12, pos_end = 15\<rparr> \<in> set (findPhrasePositions the_cat_text ''the'')"
    by (simp add: the_cat_positions)
  have len: "length the_cat_text = 32"
    by (simp add: the_cat_text_def)
  have blank: "js_trim ''  '' = []"
    by (simp add: js_trim_def is_trim_space_def code_unit_def)
  have sp: "map canonicalize (slice the_cat_text 12 15) = map canonicalize ''the'' \<and>
            \<not> is_word_char (the_cat_text ! 11) \<and> \<not> is_word_char (the_cat_text ! 15)"
    using findPhrasePositions_spans [of the_cat_text "''the''", THEN conjunct1, THEN bspec, OF mem]
      len
    by simp
  have asc: "ascending_disjoint (findPhrasePositions the_cat_text ''the'')"
    using findPhrasePositions_spans [of the_cat_text "''the''", THEN conjunct2, THEN conjunct1] .
  have emp: "findPhrasePositions the_cat_text ''  '' = []"
    using findPhrasePositions_spans [of the_cat_text "''  ''", THEN conjunct2, THEN conjunct2] blank
    by simp
  from mem sp asc emp show ?thesis by simp
qed

section \<open>The category limiter\<close>

lemma group_push_keys:
  "map fst (group_push acc ind) =
     (if bias_indicator_key ind \<in> fst ` set acc then map fst acc
      else map fst acc @ [bias_indicator_key ind])"
  by (induction acc ind rule: group_push.induct) auto

lemma group_push_map_of:
  "map_of (group_push acc ind) k =
     (if k = bias_indicator_key ind
      then Some (case map_of acc k of None \<Rightarrow> [ind] | Some g \<Rightarrow> g @ [ind])
      else map_of acc k)"
  by (induction acc ind rule: group_push.induct) auto

lemma group_push_inv:
  assumes "grouped_inv acc xs"
  shows "grouped_inv (group_push acc ind) (xs @ [ind])"
proof -
  from assms have d: "distinct (map fst acc)"
    and m: "\<And>k. map_of acc k =
             (if k \<in> bias_indicator_key ` set xs
              then Some (filter (\<lambda>i. bias_indicator_key i = k) xs) else None)"
    by (simp_all add: grouped_inv_def)
  have dom: "fst ` set acc = bias_indicator_key ` set xs"
  proof -
    have "fst ` set acc = dom (map_of acc)" by (simp add: dom_map_of_conv_image_fst)
    also have "\<dots> = bias_indicator_key ` set xs" by (auto simp add: dom_def m)
    finally show ?thesis .
  qed
  have d': "distinct (map fst (group_push acc ind))"
    using d by (auto simp add: group_push_keys)
  have none: "bias_indicator_key ind \<notin> bias_indicator_key ` set xs \<Longrightarrow>
        filter (\<lambda>i. bias_indicator_key i = bias_indicator_key ind) xs = []"
    by (simp add: filter_empty_conv) (metis imageI)
  have m': "\<And>k. map_of (group_push acc ind) k =
             (if k \<in> bias_indicator_key ` set (xs @ [ind])
              then Some (filter (\<lambda>i. bias_indicator_key i = k) (xs @ [ind])) else None)"
    using none by (auto simp add: group_push_map_of m)
  from d' m' show ?thesis unfolding grouped_inv_def by blast
qed

lemma group_reduce_inv:
  "\<forall>ind \<in> set ys. bias_indicator_key ind \<notin> set object_prototype_names \<Longrightarrow>
   grouped_inv acc xs \<Longrightarrow>
   \<exists>acc'. group_reduce acc ys = Inr acc' \<and> grouped_inv acc' (xs @ ys)"
proof (induction ys arbitrary: acc xs)
  case Nil
  then show ?case by simp
next
  case (Cons y ys)
  from Cons.prems have "grouped_inv (group_push acc y) (xs @ [y])"
    by (simp add: group_push_inv)
  moreover from Cons.prems have "\<forall>ind \<in> set ys. bias_indicator_key ind \<notin> set object_prototype_names"
    by simp
  ultimately obtain acc' where "group_reduce (group_push acc y) ys = Inr acc'"
    and "grouped_inv acc' ((xs @ [y]) @ ys)"
    using Cons.IH by blast
  with Cons.prems show ?case by simp
qed

lemma set_own_property_order: "set (own_property_order props) = set props"
  by (auto simp add: own_property_order_def)

lemma distinct_own_property_order:
  assumes "distinct (map fst props)"
  shows "distinct (map fst (own_property_order props))"
proof -
  from assms have d: "distinct props" and i: "inj_on fst (set props)"
    by (simp_all add: distinct_map)
  have "distinct (own_property_order props)"
    using d by (auto simp add: own_property_order_def)
  with i show ?thesis by (simp add: distinct_map set_own_property_order)
qed

lemma array_slice0_take: "0 \<le> m \<Longrightarrow> array_slice0 m xs = take (nat m) xs"
  by (auto simp add: array_slice0_def Let_def min_def)

lemma limitIndicatorsByKey_order:
  assumes m: "0 \<le> m"
    and safe: "\<forall>ind \<in> set indicators.
        bias_indicator_key ind \<in> set (limited_keys indicators keysToLimit) \<longrightarrow>
        bias_indicator_key ind \<notin> set object_prototype_names"
  shows "\<exists>order. distinct order \<and>
     set order = {k \<in> set (limited_keys indicators keysToLimit).
                    \<exists>ind \<in> set indicators. bias_indicator_key ind = k} \<and>
     limitIndicatorsByKey indicators keysToLimit (Some m) =
       Inr (concat (map (\<lambda>k. take (nat m) (filter (\<lambda>ind. bias_indicator_key ind = k) indicators))
                     order)
            @ filter (\<lambda>ind. bias_indicator_key ind \<notin> set (limited_keys indicators keysToLimit))
                indicators)"
proof -
  let ?K = "set (limited_keys indicators keysToLimit)"
  let ?toLimit = "filter (\<lambda>ind. bias_indicator_key ind \<in> ?K) indicators"
  let ?others = "filter (\<lambda>ind. bias_indicator_key ind \<notin> ?K) indicators"
  have "grouped_inv [] []" by (simp add: grouped_inv_def)
  moreover have "\<forall>ind \<in> set ?toLimit. bias_indicator_key ind \<notin> set object_prototype_names"
    using safe by simp
  ultimately obtain grouped where g: "group_reduce [] ?toLimit = Inr grouped"
    and inv: "grouped_inv grouped ([] @ ?toLimit)"
    using group_reduce_inv by blast
  from inv have d: "distinct (map fst grouped)"
    and mp: "\<And>k. map_of grouped k =
             (if k \<in> bias_indicator_key ` set ?toLimit
              then Some (filter (\<lambda>i. bias_indicator_key i = k) ?toLimit) else None)"
    by (simp_all add: grouped_inv_def)
  let ?ord = "own_property_order grouped"
  let ?order = "map fst ?ord"
  have dord: "distinct ?order" using d by (rule distinct_own_property_order)
  have el: "\<And>k grp. (k, grp) \<in> set ?ord \<Longrightarrow>
      k \<in> ?K \<and> k \<in> bias_indicator_key ` set indicators \<and>
      grp = filter (\<lambda>i. bias_indicator_key i = k) indicators"
  proof -
    fix k grp
    assume "(k, grp) \<in> set ?ord"
    then have "(k, grp) \<in> set grouped" by (simp add: set_own_property_order)
    with d have "map_of grouped k = Some grp" by simp
    with mp [of k] have k: "k \<in> bias_indicator_key ` set ?toLimit"
      and grp: "grp = filter (\<lambda>i. bias_indicator_key i = k) ?toLimit"
      by (simp_all split: if_splits)
    from k have kK: "k \<in> ?K" and ki: "k \<in> bias_indicator_key ` set indicators" by auto
    from kK have "filter (\<lambda>i. bias_indicator_key i = k) ?toLimit
                    = filter (\<lambda>i. bias_indicator_key i = k) indicators"
      by (auto intro: filter_cong)
    with grp kK ki show "k \<in> ?K \<and> k \<in> bias_indicator_key ` set indicators \<and>
      grp = filter (\<lambda>i. bias_indicator_key i = k) indicators"
      by simp
  qed
  have sorder: "set ?order = {k \<in> ?K. \<exists>ind \<in> set indicators. bias_indicator_key ind = k}"
  proof (intro set_eqI iffI)
    fix k
    assume "k \<in> set ?order"
    then obtain grp where "(k, grp) \<in> set ?ord" by auto
    from el [OF this] show "k \<in> {k \<in> ?K. \<exists>ind \<in> set indicators. bias_indicator_key ind = k}"
      by auto
  next
    fix k
    assume "k \<in> {k \<in> ?K. \<exists>ind \<in> set indicators. bias_indicator_key ind = k}"
    then have "k \<in> bias_indicator_key ` set ?toLimit" by auto
    with mp [of k] have "map_of grouped k \<noteq> None" by simp
    then obtain grp where "map_of grouped k = Some grp" by blast
    then have "(k, grp) \<in> set grouped" by (rule map_of_SomeD)
    then have "(k, grp) \<in> set ?ord" by (simp add: set_own_property_order)
    then show "k \<in> set ?order" by force
  qed
  have vals: "map (array_slice0 m) (object_values grouped)
      = map (\<lambda>k. take (nat m) (filter (\<lambda>ind. bias_indicator_key ind = k) indicators)) ?order"
    unfolding object_values_def map_map
  proof (rule map_cong [OF refl])
    fix p
    assume p: "p \<in> set ?ord"
    obtain k grp where kg: "p = (k, grp)" by (cases p)
    with p el [of k grp] have "grp = filter (\<lambda>i. bias_indicator_key i = k) indicators" by simp
    with kg m show "(array_slice0 m \<circ> snd) p =
        ((\<lambda>k. take (nat m) (filter (\<lambda>ind. bias_indicator_key ind = k) indicators)) \<circ> fst) p"
      by (simp add: array_slice0_take)
  qed
  have "limitIndicatorsByKey indicators keysToLimit (Some m) =
       Inr (concat (map (\<lambda>k. take (nat m) (filter (\<lambda>ind. bias_indicator_key ind = k) indicators))
                     ?order) @ ?others)"
    using g vals by (simp add: limitIndicatorsByKey_def Let_def)
  with dord sorder show ?thesis by blast
qed

text \<open>
  C3 (as amended). With \<open>maxPerKey \<ge> 0\<close> and no limited category named like a property
  of \<open>Object.prototype\<close>, \<open>limitIndicatorsByKey\<close> returns first the limited categories
  that occur in the input, one after the other, each as its first \<open>maxPerKey\<close> candidates
  in input order, and then every candidate of the categories that are not limited, in
  input order. The limited categories are those of \<open>keysToLimit\<close>, or every category of
  the input when \<open>keysToLimit\<close> is empty or undefined. With \<open>maxPerKey = 0\<close> only the
  candidates of the categories that are not limited remain.
\<close>

theorem limitIndicatorsByKey_grouped:
  "0 \<le> m \<and>
   (\<forall>ind \<in> set indicators.
        bias_indicator_key ind \<in> set (limited_keys indicators keysToLimit) \<longrightarrow>
        bias_indicator_key ind \<notin> set object_prototype_names) \<longrightarrow>
   (\<exists>order. distinct order \<and>
     set order = {k \<in> set (limited_keys indicators keysToLimit).
                    \<exists>ind \<in> set indicators. bias_indicator_key ind = k} \<and>
     limitIndicatorsByKey indicators keysToLimit (Some m) =
       Inr (concat (map (\<lambda>k. take (nat m) (filter (\<lambda>ind. bias_indicator_key ind = k) indicators))
                     order)
            @ filter (\<lambda>ind. bias_indicator_key ind \<notin> set (limited_keys indicators keysToLimit))
                indicators)) \<and>
   (m = 0 \<longrightarrow>
      limitIndicatorsByKey indicators keysToLimit (Some m) =
        Inr (filter (\<lambda>ind. bias_indicator_key ind \<notin> set (limited_keys indicators keysToLimit))
               indicators)) \<and>
   limited_keys indicators keysToLimit =
     (if keysToLimit = None \<or> keysToLimit = Some [] then map bias_indicator_key indicators
      else the keysToLimit)"
proof (intro impI)
  assume h: "0 \<le> m \<and>
   (\<forall>ind \<in> set indicators.
        bias_indicator_key ind \<in> set (limited_keys indicators keysToLimit) \<longrightarrow>
        bias_indicator_key ind \<notin> set object_prototype_names)"
  from h limitIndicatorsByKey_order [of m indicators keysToLimit]
  obtain order where o: "distinct order"
     "set order = {k \<in> set (limited_keys indicators keysToLimit).
                    \<exists>ind \<in> set indicators. bias_indicator_key ind = k}"
     "limitIndicatorsByKey indicators keysToLimit (Some m) =
       Inr (concat (map (\<lambda>k. take (nat m) (filter (\<lambda>ind. bias_indicator_key ind = k) indicators))
                     order)
            @ filter (\<lambda>ind. bias_indicator_key ind \<notin> set (limited_keys indicators keysToLimit))
                indicators)"
    by blast
  have zero: "m = 0 \<longrightarrow>
      limitIndicatorsByKey indicators keysToLimit (Some m) =
        Inr (filter (\<lambda>ind. bias_indicator_key ind \<notin> set (limited_keys indicators keysToLimit))
               indicators)"
  proof
    assume z: "m = 0"
    have "concat (map (\<lambda>k. take (nat 0) (filter (\<lambda>ind. bias_indicator_key ind = k) indicators))
                     order) = []"
      by simp
    with o(3) z show "limitIndicatorsByKey indicators keysToLimit (Some m) =
        Inr (filter (\<lambda>ind. bias_indicator_key ind \<notin> set (limited_keys indicators keysToLimit))
               indicators)"
      by simp
  qed
  have keys: "limited_keys indicators keysToLimit =
     (if keysToLimit = None \<or> keysToLimit = Some [] then map bias_indicator_key indicators
      else the keysToLimit)"
    by (cases keysToLimit) (auto simp add: limited_keys_def)
  from o zero keys show "(\<exists>order. distinct order \<and>
     set order = {k \<in> set (limited_keys indicators keysToLimit).
                    \<exists>ind \<in> set indicators. bias_indicator_key ind = k} \<and>
     limitIndicatorsByKey indicators keysToLimit (Some m) =
       Inr (concat (map (\<lambda>k. take (nat m) (filter (\<lambda>ind. bias_indicator_key ind = k) indicators))
                     order)
            @ filter (\<lambda>ind. bias_indicator_key ind \<notin> set (limited_keys indicators keysToLimit))
                indicators)) \<and>
   (m = 0 \<longrightarrow>
      limitIndicatorsByKey indicators keysToLimit (Some m) =
        Inr (filter (\<lambda>ind. bias_indicator_key ind \<notin> set (limited_keys indicators keysToLimit))
               indicators)) \<and>
   limited_keys indicators keysToLimit =
     (if keysToLimit = None \<or> keysToLimit = Some [] then map bias_indicator_key indicators
      else the keysToLimit)"
    by blast
qed

lemma first_n_test_result:
  "limitIndicatorsByKey first_n_test None (Some 2)
     = Inr [raw ''typeA'' ''a1'', raw ''typeA'' ''a2'', raw ''typeB'' ''b1'', raw ''typeB'' ''b2'']"
  unfolding first_n_test_def by code_simp

text \<open>
  The witness is the input of the repository's test of the first occurrences per key,
  with every key limited and \<open>maxPerKey = 2\<close>.
\<close>

theorem limitIndicatorsByKey_grouped_witness:
  "limitIndicatorsByKey first_n_test None (Some 2)
     = Inr [raw ''typeA'' ''a1'', raw ''typeA'' ''a2'', raw ''typeB'' ''b1'', raw ''typeB'' ''b2''] \<and>
   (\<exists>order. distinct order \<and>
     limitIndicatorsByKey first_n_test None (Some 2) =
       Inr (concat (map (\<lambda>k. take 2 (filter (\<lambda>ind. bias_indicator_key ind = k) first_n_test))
                     order)
            @ filter (\<lambda>ind. bias_indicator_key ind \<notin> set (limited_keys first_n_test None))
                first_n_test)) \<and>
   limited_keys first_n_test None = map bias_indicator_key first_n_test"
proof -
  have safe: "\<forall>ind \<in> set first_n_test.
        bias_indicator_key ind \<in> set (limited_keys first_n_test None) \<longrightarrow>
        bias_indicator_key ind \<notin> set object_prototype_names"
    by (simp add: first_n_test_def raw_def object_prototype_names_def)
  have two: "nat 2 = 2" by simp
  from limitIndicatorsByKey_grouped [of 2 first_n_test None] safe
  have "(\<exists>order. distinct order \<and>
     limitIndicatorsByKey first_n_test None (Some 2) =
       Inr (concat (map (\<lambda>k. take 2 (filter (\<lambda>ind. bias_indicator_key ind = k) first_n_test))
                     order)
            @ filter (\<lambda>ind. bias_indicator_key ind \<notin> set (limited_keys first_n_test None))
                first_n_test)) \<and>
   limited_keys first_n_test None = map bias_indicator_key first_n_test"
    unfolding two by auto
  with first_n_test_result show ?thesis by blast
qed

text \<open>
  Against C3 as stated: on a prefix of the same test input the output is not a
  subsequence of the input; the second candidate of the first category comes before
  the first candidate of the second.
\<close>

theorem limitIndicatorsByKey_not_subsequence:
  "limitIndicatorsByKey [raw ''typeA'' ''a1'', raw ''typeB'' ''b1'', raw ''typeA'' ''a2''] None (Some 2)
     = Inr [raw ''typeA'' ''a1'', raw ''typeA'' ''a2'', raw ''typeB'' ''b1''] \<and>
   \<not> subseq [raw ''typeA'' ''a1'', raw ''typeA'' ''a2'', raw ''typeB'' ''b1'']
             [raw ''typeA'' ''a1'', raw ''typeB'' ''b1'', raw ''typeA'' ''a2'']"
proof -
  have "limitIndicatorsByKey [raw ''typeA'' ''a1'', raw ''typeB'' ''b1'', raw ''typeA'' ''a2''] None (Some 2)
     = Inr [raw ''typeA'' ''a1'', raw ''typeA'' ''a2'', raw ''typeB'' ''b1'']"
    by code_simp
  moreover have "\<not> subseq [raw ''typeA'' ''a1'', raw ''typeA'' ''a2'', raw ''typeB'' ''b1'']
             [raw ''typeA'' ''a1'', raw ''typeB'' ''b1'', raw ''typeA'' ''a2'']"
    by (simp add: raw_def)
  ultimately show ?thesis by simp
qed

section \<open>Spans for candidates that arrive without one\<close>

text \<open>
  C7 fails on the code for a phrase whose lower-case form is a property name of
  \<open>Object.prototype\<close>. The text contains the word \<open>constructor\<close> twice and the locator
  finds both; the first candidate for that phrase reads the inherited \<open>constructor\<close>
  function as its counter, the position index becomes \<open>NaN\<close>, and the candidate gets no
  span at all; the second and third candidates get the first and the second match, where
  the claim gives the first candidate the first match and the other two the second.
\<close>

theorem addCharacterPositions_constructor_gets_no_span:
  "findPhrasePositions ''the constructor met a constructor'' ''constructor''
     = [\<lparr>pos_start = 4, pos_end = 15\<rparr>, \<lparr>pos_start = 22, pos_end = 33\<rparr>] \<and>
   map character_positions
     (addCharacterPositions
        [raw ''overgeneralizations'' ''constructor'', raw ''overgeneralizations'' ''constructor'',
         raw ''overgeneralizations'' ''constructor'']
        ''the constructor met a constructor'')
     = [None, Some \<lparr>pos_start = 4, pos_end = 15\<rparr>, Some \<lparr>pos_start = 22, pos_end = 33\<rparr>]"
  by code_simp

section \<open>Spans for candidates without one: every other phrase\<close>

lemma code_unit_char_of: "n < 256 \<Longrightarrow> code_unit (char_of n) = n"
  by (simp add: code_unit_def)

lemma canonicalize_lower_char: "canonicalize (lower_char c) = canonicalize c"
proof -
  have "code_unit c < 256" by (simp add: code_unit_def)
  then show ?thesis
    by (auto simp add: canonicalize_def lower_char_def Let_def code_unit_char_of)
qed

lemma is_trim_space_lower_char: "is_trim_space (lower_char c) = is_trim_space c"
proof -
  have "code_unit c < 256" by (simp add: code_unit_def)
  then show ?thesis
    by (auto simp add: is_trim_space_def lower_char_def Let_def code_unit_char_of)
qed

lemma toLowerCase_canonicalize:
  "map canonicalize (toLowerCase p) = map canonicalize p"
  by (simp add: toLowerCase_def canonicalize_lower_char)

lemma js_trim_empty: "(js_trim p = []) = list_all is_trim_space p"
proof
  assume "js_trim p = []"
  then have a: "\<forall>x \<in> set (dropWhile is_trim_space p). is_trim_space x"
    by (simp add: js_trim_def dropWhile_eq_Nil_conv)
  have "dropWhile is_trim_space p = []"
  proof (rule ccontr)
    assume ne: "dropWhile is_trim_space p \<noteq> []"
    then have "\<not> is_trim_space (hd (dropWhile is_trim_space p))" by (rule hd_dropWhile)
    moreover from ne have "hd (dropWhile is_trim_space p) \<in> set (dropWhile is_trim_space p)"
      by (rule hd_in_set)
    ultimately show False using a by blast
  qed
  then show "list_all is_trim_space p" by (simp add: dropWhile_eq_Nil_conv list_all_iff)
next
  assume "list_all is_trim_space p"
  then have d: "dropWhile is_trim_space p = []" by (simp add: dropWhile_eq_Nil_conv list_all_iff)
  show "js_trim p = []" unfolding js_trim_def d by simp
qed

lemma js_trim_toLowerCase: "(js_trim (toLowerCase p) = []) = (js_trim p = [])"
  by (simp add: js_trim_empty toLowerCase_def list_all_iff is_trim_space_lower_char)

lemma same_lower:
  assumes "toLowerCase p = toLowerCase q"
  shows "length p = length q" and "map canonicalize p = map canonicalize q"
    and "(js_trim p = []) = (js_trim q = [])"
proof -
  from assms have "length (toLowerCase p) = length (toLowerCase q)" by simp
  then show "length p = length q" by (simp add: toLowerCase_def)
  from assms have "map canonicalize (toLowerCase p) = map canonicalize (toLowerCase q)" by simp
  then show "map canonicalize p = map canonicalize q" by (simp add: toLowerCase_canonicalize)
  from assms have "(js_trim (toLowerCase p) = []) = (js_trim (toLowerCase q) = [])" by simp
  then show "(js_trim p = []) = (js_trim q = [])" by (simp add: js_trim_toLowerCase)
qed

lemma exec_loop_same:
  "length p = length q \<Longrightarrow> map canonicalize p = map canonicalize q \<Longrightarrow>
   exec_loop body p k = exec_loop body q k"
proof (induction body p k rule: exec_loop.induct)
  case (1 body p k)
  have m: "match_at body p = match_at body q"
    using "1.prems" by (intro ext) (simp add: match_at_def)
  then have r: "regex_exec body p k = regex_exec body q k"
    by (simp add: regex_exec_def)
  show ?case
  proof (cases "p = []")
    case True
    with "1.prems" have "q = []" by simp
    with True show ?thesis by (simp add: exec_loop_empty)
  next
    case ne: False
    with "1.prems" have neq: "q \<noteq> []" by auto
    show ?thesis
    proof (cases "regex_exec body p k")
      case None
      with ne neq r show ?thesis by (simp add: exec_loop_None)
    next
      case (Some i)
      from "1.IH" [OF ne Some "1.prems"]
      have rest: "exec_loop body p (i + length p) = exec_loop body q (i + length p)" .
      from Some r have q: "regex_exec body q k = Some i" by simp
      have "exec_loop body p k =
              \<lparr>pos_start = int i, pos_end = int i + int (length p)\<rparr>
                # exec_loop body p (i + length p)"
        using ne Some by (rule exec_loop_Some)
      moreover have "exec_loop body q k =
              \<lparr>pos_start = int i, pos_end = int i + int (length q)\<rparr>
                # exec_loop body q (i + length q)"
        using neq q by (rule exec_loop_Some)
      ultimately show ?thesis using rest "1.prems"(1) by simp
    qed
  qed
qed

lemma findPhrasePositions_same_lower:
  assumes "toLowerCase p = toLowerCase q"
  shows "findPhrasePositions body p = findPhrasePositions body q"
proof -
  note s = same_lower [OF assms]
  from s(1) have e: "(p = []) = (q = [])" by auto
  have "exec_loop body p 0 = exec_loop body q 0"
    using s(1) s(2) by (rule exec_loop_same)
  with s(3) e show ?thesis by (simp add: findPhrasePositions_def)
qed

lemma occurrences_before_Cons:
  "occurrences_before (x # xs) (Suc j) =
     (if character_positions x = None \<and>
         toLowerCase (detected_phrase x) = toLowerCase (detected_phrase (xs ! j))
      then Suc (occurrences_before xs j) else occurrences_before xs j)"
  by (simp add: occurrences_before_def)

lemma addPositionsLoop_length:
  "length (addPositionsLoop body counts xs) = length xs"
  by (induction xs arbitrary: counts) (simp_all add: Let_def)

lemma addPositionsLoop_nth:
  assumes "counts_wf counts"
    and "\<forall>ind \<in> set xs. character_positions ind = None \<longrightarrow>
           toLowerCase (detected_phrase ind) \<notin> set object_prototype_names"
    and "j < length xs"
  shows "addPositionsLoop body counts xs ! j =
     expected_span body
       (count_of counts (toLowerCase (detected_phrase (xs ! j))) + occurrences_before xs j)
       (xs ! j)"
  using assms
proof (induction xs arbitrary: counts j)
  case Nil
  then show ?case by simp
next
  case (Cons x xs)
  let ?pos = "findPhrasePositions body (detected_phrase x)"
  let ?ph = "toLowerCase (detected_phrase x)"
  from Cons.prems(2) have safe_rest: "\<forall>ind \<in> set xs. character_positions ind = None \<longrightarrow>
           toLowerCase (detected_phrase ind) \<notin> set object_prototype_names"
    by simp
  show ?case
  proof (cases "character_positions x \<noteq> None")
    case True
    then have step: "addPositionsLoop body counts (x # xs) = x # addPositionsLoop body counts xs"
      by simp
    from True have occ: "\<And>i. occurrences_before (x # xs) (Suc i) = occurrences_before xs i"
      by (simp add: occurrences_before_Cons)
    show ?thesis
    proof (cases j)
      case 0
      with True step show ?thesis by (simp add: expected_span_def)
    next
      case (Suc j')
      with Cons.prems(3) have j': "j' < length xs" by simp
      from Cons.IH [OF Cons.prems(1) safe_rest j'] show ?thesis
        by (simp only: Suc step occ nth_Cons_Suc)
    qed
  next
    case spanless: False
    then have none: "character_positions x = None" by simp
    with Cons.prems(2) have safe_x: "?ph \<notin> set object_prototype_names" by simp
    then have np: "?ph \<noteq> ''__proto__''" by (auto simp add: object_prototype_names_def)
    show ?thesis
    proof (cases "?pos = []")
      case True
      from none True have step: "addPositionsLoop body counts (x # xs) =
          x\<lparr>character_positions := Some (fallback_positions (detected_phrase x))\<rparr>
            # addPositionsLoop body counts xs"
        by (simp add: fallback_positions_def)
      show ?thesis
      proof (cases j)
        case 0
        with none True step show ?thesis by (simp add: expected_span_def)
      next
        case (Suc j')
        with Cons.prems(3) have j': "j' < length xs" by simp
        note ih = Cons.IH [OF Cons.prems(1) safe_rest j']
        show ?thesis
        proof (cases "toLowerCase (detected_phrase x) = toLowerCase (detected_phrase (xs ! j'))")
          case same: True
          then have "findPhrasePositions body (detected_phrase (xs ! j')) = []"
            using findPhrasePositions_same_lower [of "detected_phrase x" "detected_phrase (xs ! j')" body]
              True by simp
          then have "\<And>a b. expected_span body a (xs ! j') = expected_span body b (xs ! j')"
            by (simp add: expected_span_def)
          with ih show ?thesis by (simp only: Suc step nth_Cons_Suc)
        next
          case False
          then have "occurrences_before (x # xs) (Suc j') = occurrences_before xs j'"
            by (simp add: occurrences_before_Cons)
          with ih show ?thesis by (simp only: Suc step nth_Cons_Suc)
        qed
      qed
    next
      case found: False
      let ?n = "count_of counts ?ph"
      let ?counts2 = "counts(?ph := Some (Num (Suc ?n)))"
      from Cons.prems(1) have cases_ph: "counts ?ph = None \<or> (\<exists>n. counts ?ph = Some (Num n))"
        by (simp add: counts_wf_def)
      have step: "addPositionsLoop body counts (x # xs) =
          x\<lparr>character_positions := Some (?pos ! min ?n (length ?pos - 1))\<rparr>
            # addPositionsLoop body ?counts2 xs"
      proof -
        from found have len: "0 < length ?pos" by simp
        then have lt: "min ?n (length ?pos - 1) < length ?pos" by arith
        from cases_ph show ?thesis
        proof
          assume c: "counts ?ph = None"
          then have "count_of counts ?ph = 0" by (simp add: count_of_def)
          with c none len safe_x np show ?thesis
            by (simp add: Let_def count_get_def count_set_def js_truthy_def math_min_def
                  increment_def array_at_def)
        next
          assume "\<exists>n. counts ?ph = Some (Num n)"
          then obtain n where c: "counts ?ph = Some (Num n)" by blast
          then have n: "count_of counts ?ph = n" by (simp add: count_of_def)
          have upd: "counts(?ph \<mapsto> Num n) = counts" using c by (auto simp add: fun_upd_idem_iff)
          from c n none len lt np show ?thesis
            by (cases "n = 0")
               (simp_all add: Let_def count_get_def count_set_def js_truthy_def math_min_def
                  increment_def array_at_def upd)
        qed
      qed
      have wf2: "counts_wf ?counts2"
        using Cons.prems(1) by (simp add: counts_wf_def)
      show ?thesis
      proof (cases j)
        case 0
        with none found step show ?thesis by (simp add: occurrences_before_def expected_span_def)
      next
        case (Suc j')
        with Cons.prems(3) have j': "j' < length xs" by simp
        note ih = Cons.IH [OF wf2 safe_rest j']
        have idx: "count_of ?counts2 (toLowerCase (detected_phrase (xs ! j'))) + occurrences_before xs j'
           = count_of counts (toLowerCase (detected_phrase (xs ! j')))
               + occurrences_before (x # xs) (Suc j')"
          using none by (simp add: count_of_def occurrences_before_Cons)
        from ih show ?thesis by (simp only: Suc step nth_Cons_Suc idx)
      qed
    qed
  qed
qed

text \<open>
  Every other phrase. When no candidate without a span has a phrase whose lower-case
  form is a property name of \<open>Object.prototype\<close>, \<open>addCharacterPositions\<close>
  returns one indicator per candidate, in order: a candidate that carries a span is
  returned as it is; a candidate without one whose phrase has no match gets the fallback
  span \<open>{0, max(1, phrase length)}\<close>; a candidate without one whose phrase has \<open>k \<ge> 1\<close>
  matches gets the match at index \<open>min(i, k - 1)\<close>, \<open>i\<close> being the number of candidates
  before it that arrived without a span and with the same lower-cased phrase.
\<close>

theorem addCharacterPositions_distributes_matches:
  "(\<forall>ind \<in> set indicators. character_positions ind = None \<longrightarrow>
        toLowerCase (detected_phrase ind) \<notin> set object_prototype_names) \<longrightarrow>
   length (addCharacterPositions indicators text) = length indicators \<and>
   (\<forall>j. j < length indicators \<longrightarrow>
      (character_positions (indicators ! j) \<noteq> None \<longrightarrow>
         addCharacterPositions indicators text ! j = indicators ! j) \<and>
      (character_positions (indicators ! j) = None \<and>
       findPhrasePositions text (detected_phrase (indicators ! j)) = [] \<longrightarrow>
         addCharacterPositions indicators text ! j =
           (indicators ! j)\<lparr>character_positions :=
              Some \<lparr>pos_start = 0,
                    pos_end = max 1 (int (length (detected_phrase (indicators ! j))))\<rparr>\<rparr>) \<and>
      (character_positions (indicators ! j) = None \<and>
       findPhrasePositions text (detected_phrase (indicators ! j)) \<noteq> [] \<longrightarrow>
         addCharacterPositions indicators text ! j =
           (indicators ! j)\<lparr>character_positions :=
              Some (findPhrasePositions text (detected_phrase (indicators ! j))
                      ! min (occurrences_before indicators j)
                            (length (findPhrasePositions text (detected_phrase (indicators ! j))) - 1))\<rparr>))"
proof (intro impI conjI allI)
  show "length (addCharacterPositions indicators text) = length indicators"
    by (simp add: addCharacterPositions_def addPositionsLoop_length)
next
  fix j
  assume safe: "\<forall>ind \<in> set indicators. character_positions ind = None \<longrightarrow>
        toLowerCase (detected_phrase ind) \<notin> set object_prototype_names"
    and j: "j < length indicators"
  have wf: "counts_wf (\<lambda>k. None)" by (simp add: counts_wf_def)
  have zero: "\<And>k. count_of (\<lambda>k. None) k = 0" by (simp add: count_of_def)
  have e: "addCharacterPositions indicators text ! j =
             expected_span text (occurrences_before indicators j) (indicators ! j)"
    using addPositionsLoop_nth [OF wf safe j] by (simp add: addCharacterPositions_def zero)
  {
    assume "character_positions (indicators ! j) \<noteq> None"
    with e show "addCharacterPositions indicators text ! j = indicators ! j"
      by (simp add: expected_span_def)
  next
    assume "character_positions (indicators ! j) = None \<and>
       findPhrasePositions text (detected_phrase (indicators ! j)) = []"
    with e show "addCharacterPositions indicators text ! j =
           (indicators ! j)\<lparr>character_positions :=
              Some \<lparr>pos_start = 0,
                    pos_end = max 1 (int (length (detected_phrase (indicators ! j))))\<rparr>\<rparr>"
      by (simp add: expected_span_def fallback_positions_def)
  next
    assume "character_positions (indicators ! j) = None \<and>
       findPhrasePositions text (detected_phrase (indicators ! j)) \<noteq> []"
    with e show "addCharacterPositions indicators text ! j =
           (indicators ! j)\<lparr>character_positions :=
              Some (findPhrasePositions text (detected_phrase (indicators ! j))
                      ! min (occurrences_before indicators j)
                            (length (findPhrasePositions text (detected_phrase (indicators ! j))) - 1))\<rparr>"
      by (simp add: expected_span_def)
  }
qed

lemma the_candidates_spans:
  "map character_positions (addCharacterPositions the_candidates the_cat_text)
     = [Some \<lparr>pos_start = 0, pos_end = 3\<rparr>, Some \<lparr>pos_start = 12, pos_end = 15\<rparr>,
        Some \<lparr>pos_start = 40, pos_end = 50\<rparr>, Some \<lparr>pos_start = 24, pos_end = 27\<rparr>,
        Some \<lparr>pos_start = 24, pos_end = 27\<rparr>, Some \<lparr>pos_start = 0, pos_end = 8\<rparr>]"
  unfolding the_candidates_def the_cat_text_def by code_simp

text \<open>
  The witness: four candidates without a span for the phrase \<open>the\<close> in three spellings,
  one with a span between them, over a text with three matches; the fourth of the four
  is clamped to the last match, the candidate with a span keeps it and is not counted.
\<close>

theorem addCharacterPositions_distributes_matches_witness:
  "map character_positions (addCharacterPositions the_candidates the_cat_text)
     = [Some \<lparr>pos_start = 0, pos_end = 3\<rparr>, Some \<lparr>pos_start = 12, pos_end = 15\<rparr>,
        Some \<lparr>pos_start = 40, pos_end = 50\<rparr>, Some \<lparr>pos_start = 24, pos_end = 27\<rparr>,
        Some \<lparr>pos_start = 24, pos_end = 27\<rparr>, Some \<lparr>pos_start = 0, pos_end = 8\<rparr>] \<and>
   occurrences_before the_candidates 4 = 3 \<and>
   addCharacterPositions the_candidates the_cat_text ! 4 =
     (the_candidates ! 4)\<lparr>character_positions :=
        Some (findPhrasePositions the_cat_text ''THE'' ! min (occurrences_before the_candidates 4) 2)\<rparr> \<and>
   addCharacterPositions the_candidates the_cat_text ! 2 = the_candidates ! 2"
proof -
  have safe: "\<forall>ind \<in> set the_candidates. character_positions ind = None \<longrightarrow>
        toLowerCase (detected_phrase ind) \<notin> set object_prototype_names"
    unfolding the_candidates_def by code_simp
  have len: "length the_candidates = 6" by (simp add: the_candidates_def)
  have occ: "occurrences_before the_candidates 4 = 3"
    unfolding the_candidates_def by code_simp
  have four: "character_positions (the_candidates ! 4) = None"
    "detected_phrase (the_candidates ! 4) = ''THE''"
    by (simp_all add: the_candidates_def raw_def)
  have two: "character_positions (the_candidates ! 2) \<noteq> None"
    by (simp add: the_candidates_def raw_def)
  have pos: "findPhrasePositions the_cat_text ''THE''
     = [\<lparr>pos_start = 0, pos_end = 3\<rparr>, \<lparr>pos_start = 12, pos_end = 15\<rparr>,
        \<lparr>pos_start = 24, pos_end = 27\<rparr>]"
    unfolding the_cat_text_def by code_simp
  note t = addCharacterPositions_distributes_matches [of the_candidates the_cat_text, THEN mp, OF safe]
  have a: "addCharacterPositions the_candidates the_cat_text ! 4 =
     (the_candidates ! 4)\<lparr>character_positions :=
        Some (findPhrasePositions the_cat_text ''THE'' ! min (occurrences_before the_candidates 4) 2)\<rparr>"
    using t [THEN conjunct2, THEN spec [of _ 4]] len four pos by (simp add: occ)
  have b: "addCharacterPositions the_candidates the_cat_text ! 2 = the_candidates ! 2"
    using t [THEN conjunct2, THEN spec [of _ 2]] len two by simp
  from the_candidates_spans occ a b show ?thesis by blast
qed

section \<open>Display indices under removal and reconcile, and within one \<open>setAnnotations\<close>\<close>

lemma subseq_splice1: "subseq (splice1 i xs) xs"
proof -
  have "drop (Suc i) xs = drop 1 (drop i xs)" by simp
  then have "suffix (drop (Suc i) xs) (drop i xs)" by (simp only: suffix_drop)
  then have "subseq (drop (Suc i) xs) (drop i xs)" by (rule suffix_imp_subseq)
  then have "subseq (take i xs @ drop (Suc i) xs) (take i xs @ drop i xs)"
    by (intro list_emb_append_mono) simp_all
  then show ?thesis by (simp add: splice1_def)
qed

lemma identity_view_reconciled:
  "map identity_view (map (\<lambda>x. outdate_edited sel (remap m x)) xs) = map identity_view xs"
  by (simp add: identity_view_def outdate_edited_def remap_def)

text \<open>
  What removal and reconcile keep. After clear, removeAt, removeAtDocumentPosition or
  reconcile, the annotations of the collection, read as payload and display index, are a
  subsequence of those before: each annotation that remains has the display index it had,
  and none is renumbered.
\<close>

theorem display_indices_kept:
  "\<not> replaces_collection operation \<longrightarrow>
   subseq (map identity_view (collection (step s operation)))
          (map identity_view (collection s))"
proof
  assume nr: "\<not> replaces_collection operation"
  show "subseq (map identity_view (collection (step s operation)))
               (map identity_view (collection s))"
  proof (cases operation)
    case (SetAnnotations candidates normPos)
    with nr show ?thesis by simp
  next
    case Clear
    then show ?thesis by (simp add: clearBiasIndicators_def)
  next
    case (RemoveAt index)
    then show ?thesis
      by (auto simp add: removeBiasIndicator_def Let_def subseq_splice1 intro: subseq_map)
  next
    case (RemoveAtDocumentPosition position)
    then show ?thesis
      by (auto simp add: removeBiasIndicatorAtPosition_filter intro: subseq_map)
  next
    case (Reconcile mapping selection newSize)
    let ?tr = "\<lparr>tr_meta = False, tr_docChanged = True, tr_mapping = mapping,
                tr_selection = selection, tr_docSize = newSize\<rparr>"
    have "subseq (map identity_view (reconciled ?tr (collection s)))
                 (map identity_view (map (\<lambda>x. outdate_edited selection (remap mapping x)) (collection s)))"
      unfolding reconciled_def by (intro subseq_map) simp
    then have r: "subseq (map identity_view (reconciled ?tr (collection s)))
                          (map identity_view (collection s))"
      by (simp only: identity_view_reconciled)
    show ?thesis
    proof (cases "reconcile_condition ?tr (collection s)")
      case True
      then have "apply_tr ?tr (collection s)
                   = (reconciled ?tr (collection s), Some (reconciled ?tr (collection s)))"
        using apply_tr_edit [of ?tr "collection s"] by simp
      with r Reconcile show ?thesis by simp
    next
      case False
      then have "apply_tr ?tr (collection s) = (collection s, None)"
        using apply_tr_edit [of ?tr "collection s"] by simp
      with Reconcile show ?thesis by simp
    qed
  qed
qed

theorem display_indices_kept_witness:
  "map identity_view
     (collection (step \<lparr>collection = edited_example, documentSize = 40\<rparr> (RemoveAtDocumentPosition 25)))
     = [(''sarcasm'', ''a'', None, Some 1), (''sarcasm'', ''b'', None, Some 2)] \<and>
   subseq [(''sarcasm'', ''a'', None, Some 1), (''sarcasm'', ''b'', None, Some (2::int))]
     (map identity_view edited_example)"
proof -
  have a: "map identity_view
     (collection (step \<lparr>collection = edited_example, documentSize = 40\<rparr> (RemoveAtDocumentPosition 25)))
     = [(''sarcasm'', ''a'', None, Some 1), (''sarcasm'', ''b'', None, Some 2)]"
    by (simp add: removeBiasIndicatorAtPosition_def edited_example_def example_indicator_def
          contains_position_def splice1_def identity_view_def)
  from display_indices_kept
         [of "RemoveAtDocumentPosition 25" "\<lparr>collection = edited_example, documentSize = 40\<rparr>"]
  have "subseq (map identity_view
     (collection (step \<lparr>collection = edited_example, documentSize = 40\<rparr> (RemoveAtDocumentPosition 25))))
     (map identity_view edited_example)"
    by simp
  with a show ?thesis by simp
qed

lemma adjustIndicators_fresh:
  "\<forall>ind \<in> set xs. \<not> truthy_num (displayIndex ind) \<Longrightarrow>
   map displayIndex (adjustIndicators normPos k xs) = map (\<lambda>i. Some (k + int i)) [0 ..< length xs]"
proof (induction xs arbitrary: k)
  case Nil
  then show ?case by simp
next
  case (Cons x xs)
  then have "map displayIndex (adjustIndicators normPos (k + 1) xs)
               = map (\<lambda>i. Some (k + 1 + int i)) [0 ..< length xs]"
    by simp
  moreover have "[0 ..< length (x # xs)] = 0 # map Suc [0 ..< length xs]"
    by (simp add: upt_conv_Cons map_Suc_upt del: upt_Suc)
  ultimately show ?case using Cons.prems
    by (simp add: Let_def comp_def add.assoc del: upt_Suc)
qed

text \<open>
  What one call of \<open>setBiasIndicators\<close> does, whatever the storage held before: candidates
  that all come without a display index get the indices 1, 2, 3, ... in the order of
  their span ends.
\<close>

theorem setBiasIndicators_numbers_from_one:
  "(\<forall>ind \<in> set candidates. \<not> truthy_num (displayIndex ind)) \<longrightarrow>
   map displayIndex (fst (setBiasIndicators candidates normPos storage))
     = map (\<lambda>i. Some (1 + int i)) [0 ..< length candidates]"
proof
  assume "\<forall>ind \<in> set candidates. \<not> truthy_num (displayIndex ind)"
  then have "\<forall>ind \<in> set (sort_key (\<lambda>ind. pos_end (indicator_positions ind)) candidates).
               \<not> truthy_num (displayIndex ind)"
    by simp
  from adjustIndicators_fresh [OF this, of normPos 1]
  show "map displayIndex (fst (setBiasIndicators candidates normPos storage))
     = map (\<lambda>i. Some (1 + int i)) [0 ..< length candidates]"
    by (simp add: setBiasIndicators_def maxDisplayIndex_def Let_def)
qed

theorem setBiasIndicators_numbers_from_one_witness:
  "map displayIndex (fst (setBiasIndicators
      [example_indicator ''later'' 20 30 None, example_indicator ''earlier'' 5 10 None] True
      three_indicators)) = [Some 1, Some 2] \<and>
   map indicator_phrase (fst (setBiasIndicators
      [example_indicator ''later'' 20 30 None, example_indicator ''earlier'' 5 10 None] True
      three_indicators)) = [''earlier'', ''later'']"
proof -
  have fresh: "\<forall>ind \<in> set [example_indicator ''later'' 20 30 None, example_indicator ''earlier'' 5 10 None].
      \<not> truthy_num (displayIndex ind)"
    by (simp add: example_indicator_def truthy_num_def)
  have "map displayIndex (fst (setBiasIndicators
      [example_indicator ''later'' 20 30 None, example_indicator ''earlier'' 5 10 None] True
      three_indicators)) = [Some 1, Some 2]"
    using setBiasIndicators_numbers_from_one
            [of "[example_indicator ''later'' 20 30 None, example_indicator ''earlier'' 5 10 None]"
                True three_indicators] fresh
    by (simp add: upt_rec)
  moreover have "map indicator_phrase (fst (setBiasIndicators
      [example_indicator ''later'' 20 30 None, example_indicator ''earlier'' 5 10 None] True
      three_indicators)) = [''earlier'', ''later'']"
    by (simp add: setBiasIndicators_def maxDisplayIndex_def example_indicator_def truthy_num_def Let_def)
  ultimately show ?thesis by simp
qed

end
